theory Spec2Isabelle
  imports Main "HOL-Library.Char_ord" "HOL-Library.List_Lexorder" "HOL-Library.Code_Target_Nat"
begin

section \<open>Strings: \<open>toUpperCase\<close> and \<open>trim\<close>\<close>

text \<open>
  Strings are byte strings. \<open>toUpperCase\<close> maps the ASCII letters a..z to A..Z and leaves
  every other byte alone; \<open>trim\<close> strips the ASCII white space (tab, line feed, vertical
  tab, form feed, carriage return, space) from both ends. Airport codes, reference ids and
  object ids are ASCII.
\<close>

definition toUpperChar :: "char \<Rightarrow> char" where
  "toUpperChar c =
     (let n = (of_char c :: nat) in if 97 \<le> n \<and> n \<le> 122 then char_of (n - 32) else c)"

definition toUpperCase :: "string \<Rightarrow> string" where
  "toUpperCase s = map toUpperChar s"

definition toLowerChar :: "char \<Rightarrow> char" where
  "toLowerChar c =
     (let n = (of_char c :: nat) in if 65 \<le> n \<and> n \<le> 90 then char_of (n + 32) else c)"

definition isSpace :: "char \<Rightarrow> bool" where
  "isSpace c = (let n = (of_char c :: nat) in (9 \<le> n \<and> n \<le> 13) \<or> n = 32)"

definition trim :: "string \<Rightarrow> string" where
  "trim s = rev (dropWhile isSpace (rev (dropWhile isSpace s)))"

definition isDigit :: "char \<Rightarrow> bool" where
  "isDigit c = (let n = (of_char c :: nat) in 48 \<le> n \<and> n \<le> 57)"

definition isHexDigit :: "char \<Rightarrow> bool" where
  "isHexDigit c =
     (let n = (of_char c :: nat)
      in (48 \<le> n \<and> n \<le> 57) \<or> (65 \<le> n \<and> n \<le> 70) \<or> (97 \<le> n \<and> n \<le> 102))"

section \<open>Object ids (mongoose.Types.ObjectId)\<close>

text \<open>
  An object id is written as 24 hexadecimal digits; the stored form is the lower-case one.
  \<open>isValid\<close> is \<open>mongoose.Types.ObjectId.isValid\<close> on a string, \<open>ObjectId\<close> is the
  constructor \<open>new mongoose.Types.ObjectId(s)\<close>, which throws on any other string.
\<close>

type_synonym objid = string

definition isValid :: "string \<Rightarrow> bool" where
  "isValid s = (length s = 24 \<and> list_all isHexDigit s)"

definition ObjectId :: "string \<Rightarrow> objid option" where
  "ObjectId s = (if isValid s then Some (map toLowerChar s) else None)"

section \<open>Data model (models/Booking.js)\<close>

datatype status = BOOKED | DEPARTED | ARRIVED | DELIVERED | CANCELLED

record timeline_entry =
  event :: status
  timestamp :: int
  flightId :: "objid option"

record booking =
  b_id :: objid
  ref_id :: string
  origin :: string
  destination :: string
  pieces :: int
  weight_kg :: int
  status :: status
  flightIds :: "objid list"
  timeline :: "timeline_entry list"

text \<open>The Flight model (models/Flight.js); dates are milliseconds since the epoch.\<close>

record flight =
  f_id :: objid
  flightNumber :: string
  airlineName :: string
  departureDateTime :: int
  arrivalDateTime :: int
  f_origin :: string
  f_destination :: string

text \<open>The bookings collection, in insertion order.\<close>

type_synonym bookings = "booking list"

text \<open>
  The messages the controller throws, one constructor per message, and the error kinds of
  the specification they stand for.
\<close>

datatype error =
    InvalidFlightIds
  | BookingNotFound
  | CannotDepart status
  | CannotArrive status
  | CannotCancelArrived
  | CannotCancel status
  | UpdateFailed
  | CancellationFailed
  | BSONError
  | ValidationFailed
  | DuplicateKey

datatype error_kind =
    ValidationError | InvalidFlightReference | NotFound | InvalidTransition
  | ConcurrencyConflict | DuplicateRefId

fun kind :: "error \<Rightarrow> error_kind" where
  "kind InvalidFlightIds = InvalidFlightReference"
| "kind BookingNotFound = NotFound"
| "kind (CannotDepart _) = InvalidTransition"
| "kind (CannotArrive _) = InvalidTransition"
| "kind CannotCancelArrived = InvalidTransition"
| "kind (CannotCancel _) = InvalidTransition"
| "kind UpdateFailed = ConcurrencyConflict"
| "kind CancellationFailed = ConcurrencyConflict"
| "kind BSONError = ValidationError"
| "kind ValidationFailed = ValidationError"
| "kind DuplicateKey = DuplicateRefId"

section \<open>Store primitives (Mongoose queries on the bookings collection)\<close>

definition findById :: "bookings \<Rightarrow> objid \<Rightarrow> booking option" where
  "findById s i = find (\<lambda>b. b_id b = i) s"

definition findOneByRefId :: "bookings \<Rightarrow> string \<Rightarrow> booking option" where
  "findOneByRefId s r = find (\<lambda>b. ref_id b = r) s"

text \<open>
  \<open>Booking.findOneAndUpdate({_id: i, status: {$in: valid}}, upd, {new: true})\<close>: one atomic
  step of the store. The first document with that id whose stored status is in \<open>valid\<close>
  is replaced by its update, and the updated document is returned; when no document
  matches, nothing is written and the result is null.
\<close>

fun findOneAndUpdate ::
  "bookings \<Rightarrow> objid \<Rightarrow> status list \<Rightarrow> (booking \<Rightarrow> booking) \<Rightarrow> booking option \<times> bookings" where
  "findOneAndUpdate [] i valid upd = (None, [])"
| "findOneAndUpdate (b # s) i valid upd =
     (if b_id b = i \<and> status b \<in> set valid then (Some (upd b), upd b # s)
      else (case findOneAndUpdate s i valid upd of (r, s') \<Rightarrow> (r, b # s')))"

text \<open>\<open>{$set: {status: st}, $push: {timeline: {event: st, timestamp: now, flightId: fid}}}\<close>\<close>

definition set_and_push :: "status \<Rightarrow> int \<Rightarrow> objid option \<Rightarrow> booking \<Rightarrow> booking" where
  "set_and_push st now fid b =
     b\<lparr>status := st,
       timeline := timeline b @ [\<lparr>event = st, timestamp = now, flightId = fid\<rparr>]\<rparr>"

section \<open>Lifecycle operations (controllers/bookingController.js)\<close>

text \<open>
  \<open>findBookingByIdentifier\<close>: by \<open>_id\<close> first when the identifier is a valid object id and a
  document has it, otherwise by \<open>ref_id\<close>, upper-cased and trimmed.
\<close>

definition tryById :: "bookings \<Rightarrow> string \<Rightarrow> booking option" where
  "tryById s identifier =
     (if isValid identifier then findById s (map toLowerChar identifier) else None)"

definition findBookingByIdentifier :: "bookings \<Rightarrow> string \<Rightarrow> booking option" where
  "findBookingByIdentifier s identifier =
     (case tryById s identifier of
        Some byId \<Rightarrow> Some byId
      | None \<Rightarrow> findOneByRefId s (trim (toUpperCase identifier)))"

text \<open>
  \<open>flightId ? new mongoose.Types.ObjectId(flightId) : null\<close>: an absent or empty
  \<open>flightId\<close> gives null, a malformed one makes the constructor throw.
\<close>

definition timeline_flightId :: "string option \<Rightarrow> error + objid option" where
  "timeline_flightId fl =
     (case fl of
        None \<Rightarrow> Inr None
      | Some f \<Rightarrow> if f = [] then Inr None
                  else (case ObjectId f of None \<Rightarrow> Inl BSONError | Some i \<Rightarrow> Inr (Some i)))"

definition validStatusesForDeparture :: "status list" where
  "validStatusesForDeparture = [BOOKED]"

definition validStatusesForArrival :: "status list" where
  "validStatusesForArrival = [DEPARTED, BOOKED]"

definition validStatusesForCancellation :: "status list" where
  "validStatusesForCancellation = [BOOKED, DEPARTED]"

text \<open>
  Each operation reads the booking (one query), checks the status it read, and then issues
  the guarded write (a second query). The part after the read is a function of its own, so
  that the store it writes to may differ from the one that was read: \<open>now\<close> is the value of
  \<open>new Date()\<close> in milliseconds.
\<close>

definition depart_write ::
  "bookings \<Rightarrow> booking \<Rightarrow> string option \<Rightarrow> int \<Rightarrow> (error + booking) \<times> bookings" where
  "depart_write s bk fl now =
     (if status bk \<notin> set validStatusesForDeparture then (Inl (CannotDepart (status bk)), s)
      else (case timeline_flightId fl of
              Inl e \<Rightarrow> (Inl e, s)
            | Inr fid \<Rightarrow>
                (case findOneAndUpdate s (b_id bk) validStatusesForDeparture
                        (set_and_push DEPARTED now fid) of
                   (None, s') \<Rightarrow> (Inl UpdateFailed, s')
                 | (Some u, s') \<Rightarrow> (Inr u, s'))))"

definition departBooking ::
  "bookings \<Rightarrow> string \<Rightarrow> string option \<Rightarrow> int \<Rightarrow> (error + booking) \<times> bookings" where
  "departBooking s bookingId fl now =
     (case findBookingByIdentifier s bookingId of
        None \<Rightarrow> (Inl BookingNotFound, s)
      | Some bk \<Rightarrow> depart_write s bk fl now)"

definition arrive_write ::
  "bookings \<Rightarrow> booking \<Rightarrow> string option \<Rightarrow> int \<Rightarrow> (error + booking) \<times> bookings" where
  "arrive_write s bk fl now =
     (if status bk \<notin> set validStatusesForArrival then (Inl (CannotArrive (status bk)), s)
      else (case timeline_flightId fl of
              Inl e \<Rightarrow> (Inl e, s)
            | Inr fid \<Rightarrow>
                (case findOneAndUpdate s (b_id bk) validStatusesForArrival
                        (set_and_push ARRIVED now fid) of
                   (None, s') \<Rightarrow> (Inl UpdateFailed, s')
                 | (Some u, s') \<Rightarrow> (Inr u, s'))))"

definition arriveBooking ::
  "bookings \<Rightarrow> string \<Rightarrow> string option \<Rightarrow> int \<Rightarrow> (error + booking) \<times> bookings" where
  "arriveBooking s bookingId fl now =
     (case findBookingByIdentifier s bookingId of
        None \<Rightarrow> (Inl BookingNotFound, s)
      | Some bk \<Rightarrow> arrive_write s bk fl now)"

definition cancel_write :: "bookings \<Rightarrow> booking \<Rightarrow> int \<Rightarrow> (error + booking) \<times> bookings" where
  "cancel_write s bk now =
     (if status bk = ARRIVED then (Inl CannotCancelArrived, s)
      else if status bk \<notin> set validStatusesForCancellation
        then (Inl (CannotCancel (status bk)), s)
      else (case findOneAndUpdate s (b_id bk) validStatusesForCancellation
                   (set_and_push CANCELLED now None) of
              (None, s') \<Rightarrow> (Inl CancellationFailed, s')
            | (Some u, s') \<Rightarrow> (Inr u, s')))"

definition cancelBooking :: "bookings \<Rightarrow> string \<Rightarrow> int \<Rightarrow> (error + booking) \<times> bookings" where
  "cancelBooking s bookingId now =
     (case findBookingByIdentifier s bookingId of
        None \<Rightarrow> (Inl BookingNotFound, s)
      | Some bk \<Rightarrow> cancel_write s bk now)"

section \<open>JavaScript helpers used by the save hooks\<close>

text \<open>
  Numbers are integers without a bound: the sequence numbers of the allocator are exact in
  JavaScript below \<open>2 ^ 53\<close>. \<open>parseInt\<close> without a radix skips leading white space, reads a
  sign, switches to base 16 after \<open>0x\<close>, and reads the longest run of digits; \<open>None\<close> is NaN.
\<close>

definition digitChar :: "nat \<Rightarrow> char" where
  "digitChar n = char_of (48 + n)"

fun decimal :: "nat \<Rightarrow> string" where
  "decimal n = (if n < 10 then [digitChar n] else decimal (n div 10) @ [digitChar (n mod 10)])"

declare decimal.simps [simp del]

definition toString :: "int \<Rightarrow> string" where
  "toString i = (if i < 0 then CHR ''-'' # decimal (nat (- i)) else decimal (nat i))"

definition padStart :: "nat \<Rightarrow> char \<Rightarrow> string \<Rightarrow> string" where
  "padStart n c s = replicate (n - length s) c @ s"

definition digitVal :: "char \<Rightarrow> nat" where
  "digitVal c =
     (let n = (of_char c :: nat)
      in if n \<le> 57 then n - 48 else if n \<le> 70 then n - 55 else n - 87)"

definition parseInt :: "string \<Rightarrow> int option" where
  "parseInt str =
     (let s = dropWhile isSpace str;
          neg = (case s of [] \<Rightarrow> False | c # _ \<Rightarrow> c = CHR ''-'');
          s1 = (case s of [] \<Rightarrow> [] | c # r \<Rightarrow> if c = CHR ''-'' \<or> c = CHR ''+'' then r else s);
          hex = (case s1 of a # b # _ \<Rightarrow> a = CHR ''0'' \<and> (b = CHR ''x'' \<or> b = CHR ''X'') | _ \<Rightarrow> False);
          s2 = (if hex then drop 2 s1 else s1);
          ds = takeWhile (if hex then isHexDigit else isDigit) s2;
          radix = (if hex then 16 else 10 :: nat);
          v = int (fold (\<lambda>c a. a * radix + digitVal c) ds 0)
      in if ds = [] then None else Some (if neg then - v else v))"

text \<open>\<open>str.split(c)\<close> on a one-character separator.\<close>

fun split :: "char \<Rightarrow> string \<Rightarrow> string list" where
  "split c [] = [[]]"
| "split c (x # xs) =
     (if x = c then [] # split c xs
      else (case split c xs of [] \<Rightarrow> [[x]] | p # ps \<Rightarrow> (x # p) # ps))"

definition startsWith :: "string \<Rightarrow> string \<Rightarrow> bool" where
  "startsWith p s = (take (length p) s = p)"

text \<open>
  \<open>date.toISOString().split('T')[0]\<close> for a date given in milliseconds since the epoch: the
  UTC calendar date as \<open>YYYY-MM-DD\<close>, with a sign and six digits for years outside 0..9999.
  The year, month and day are those of the proleptic Gregorian calendar.
\<close>

definition utcDate :: "int \<Rightarrow> int \<times> nat \<times> nat" where
  "utcDate ms =
     (let z = ms div 86400000 + 719468;
          era = z div 146097;
          doe = z mod 146097;
          yoe = (doe - doe div 1460 + doe div 36524 - doe div 146096) div 365;
          doy = doe - (365 * yoe + yoe div 4 - yoe div 100);
          mp = (5 * doy + 2) div 153;
          d = doy - (153 * mp + 2) div 5 + 1;
          m = (if mp < 10 then mp + 3 else mp - 9);
          y = yoe + era * 400 + (if m \<le> 2 then 1 else 0)
      in (y, nat m, nat d))"

definition isoDate :: "int \<Rightarrow> string" where
  "isoDate ms =
     (case utcDate ms of (y, m, d) \<Rightarrow>
        (if 0 \<le> y \<and> y \<le> 9999 then padStart 4 (CHR ''0'') (decimal (nat y))
         else (if y < 0 then CHR ''-'' else CHR ''+'') # padStart 6 (CHR ''0'') (decimal (nat \<bar>y\<bar>)))
        @ ''-'' @ padStart 2 (CHR ''0'') (decimal m)
        @ ''-'' @ padStart 2 (CHR ''0'') (decimal d))"

section \<open>The save hooks of the Booking model (models/Booking.js)\<close>

text \<open>
  The first hook allocates the reference id. \<open>today\<close> is its \<open>new Date()\<close>. The query
  \<open>findOne({ref_id: {$regex: '^' + prefix}}).sort({ref_id: -1})\<close> returns the document
  with the greatest \<open>ref_id\<close>, in the byte order of strings, among those that start with
  the prefix (the prefix holds no regular-expression operator when the year has four
  digits).
\<close>

definition refIdPrefix :: "int \<Rightarrow> string" where
  "refIdPrefix today = ''BOOK-'' @ filter (\<lambda>c. c \<noteq> CHR ''-'') (isoDate today) @ ''-''"

definition lastRefId :: "bookings \<Rightarrow> string \<Rightarrow> string option" where
  "lastRefId s prefix =
     (case filter (startsWith prefix) (map ref_id s) of
        [] \<Rightarrow> None
      | r # rs \<Rightarrow> Some (fold max rs r))"

definition nextSequence :: "string option \<Rightarrow> int" where
  "nextSequence lastBooking =
     (case lastBooking of
        None \<Rightarrow> 1
      | Some r \<Rightarrow>
          if r = [] then 1
          else (case parseInt (case drop 2 (split (CHR ''-'') r) of [] \<Rightarrow> ''undefined'' | p # _ \<Rightarrow> p) of
                  None \<Rightarrow> 1
                | Some lastSequence \<Rightarrow> lastSequence + 1))"

definition generateRefId :: "bookings \<Rightarrow> int \<Rightarrow> string" where
  "generateRefId s today =
     (let prefix = refIdPrefix today;
          sequence = nextSequence (lastRefId s prefix);
          sequenceStr = padStart 6 (CHR ''0'') (toString sequence)
      in prefix @ sequenceStr)"

text \<open>The second hook, for a new document: the timeline is the single creation entry.\<close>

definition initialTimeline :: "status \<Rightarrow> int \<Rightarrow> timeline_entry list" where
  "initialTimeline st now = [\<lparr>event = st, timestamp = now, flightId = None\<rparr>]"

text \<open>
  The schema's setters on \<open>origin\<close> and \<open>destination\<close> (\<open>trim: true, uppercase: true\<close>) and
  on \<open>ref_id\<close> (\<open>uppercase: true\<close>).
\<close>

definition schemaCode :: "string \<Rightarrow> string" where
  "schemaCode x = toUpperCase (trim x)"

text \<open>
  The schema's validators: \<open>origin\<close> and \<open>destination\<close> are required, \<open>pieces\<close> has
  \<open>min: 1\<close> and \<open>weight_kg\<close> has \<open>min: 0\<close>.
\<close>

definition validate :: "booking \<Rightarrow> bool" where
  "validate doc = (origin doc \<noteq> [] \<and> destination doc \<noteq> [] \<and> 1 \<le> pieces doc \<and> 0 \<le> weight_kg doc)"

text \<open>
  \<open>doc.save()\<close> for a new document: validation, the two hooks in the order of their
  registration, then the insert, which the unique indexes on \<open>_id\<close> and \<open>ref_id\<close> refuse for
  a key that is already there. \<open>today\<close> and \<open>now\<close> are the \<open>new Date()\<close> of the first and of
  the second hook.
\<close>

definition save_new :: "bookings \<Rightarrow> booking \<Rightarrow> int \<Rightarrow> int \<Rightarrow> (error + booking) \<times> bookings" where
  "save_new s doc today now =
     (if \<not> validate doc then (Inl ValidationFailed, s)
      else
        (let doc1 = (if ref_id doc = [] then doc\<lparr>ref_id := toUpperCase (generateRefId s today)\<rparr>
                     else doc);
             doc2 = doc1\<lparr>timeline := initialTimeline (status doc1) now\<rparr>
         in if list_ex (\<lambda>b. b_id b = b_id doc2 \<or> ref_id b = ref_id doc2) s
            then (Inl DuplicateKey, s)
            else (Inr doc2, s @ [doc2])))"

section \<open>createBooking and getBookingHistory (controllers/bookingController.js)\<close>

text \<open>
  The flight check of \<open>createBooking\<close>: every id is turned into an object id (the
  constructor throws on a malformed one), the flights with one of these ids are fetched,
  and their number is compared with the number of ids submitted. The result is the list
  of object ids that the document stores.
\<close>

definition those_ids :: "string list \<Rightarrow> objid list option" where
  "those_ids xs = (if list_all isValid xs then Some (map (map toLowerChar) xs) else None)"

definition validateFlightIds :: "flight list \<Rightarrow> string list \<Rightarrow> error + objid list" where
  "validateFlightIds flights ids_in =
     (if ids_in = [] then Inr []
      else (case those_ids ids_in of
              None \<Rightarrow> Inl BSONError
            | Some ids \<Rightarrow>
                (let validFlights = filter (\<lambda>f. f_id f \<in> set ids) flights
                 in if length validFlights \<noteq> length ids_in then Inl InvalidFlightIds
                    else Inr ids)))"

text \<open>
  \<open>pieces_in\<close> and \<open>weight_in\<close> are the submitted \<open>pieces\<close> and \<open>weight_kg\<close> as the text
  that \<open>parseInt\<close> reads, \<open>String(v)\<close>: the decimal digits of an integer below \<open>2 ^ 53\<close> in
  magnitude, \<open>10.5\<close> for the number 10.5, \<open>1e+21\<close> for the number \<open>1e21\<close>. The document stores
  \<open>parseInt\<close> of them; NaN is no Number for the schema, and \<open>save\<close> then fails in validation.
  \<open>new_id\<close> is the \<open>_id\<close> the driver generates for the new document.
\<close>

definition createBooking ::
  "flight list \<Rightarrow> bookings \<Rightarrow> string \<Rightarrow> string \<Rightarrow> string \<Rightarrow> string \<Rightarrow> string list \<Rightarrow>
     objid \<Rightarrow> int \<Rightarrow> int \<Rightarrow> (error + booking) \<times> bookings" where
  "createBooking flights s origin_in destination_in pieces_in weight_in flightIds_in
       new_id today now =
     (case validateFlightIds flights flightIds_in of
        Inl e \<Rightarrow> (Inl e, s)
      | Inr ids \<Rightarrow>
          (case parseInt pieces_in of
             None \<Rightarrow> (Inl ValidationFailed, s)
           | Some pieces_parsed \<Rightarrow>
               (case parseInt weight_in of
                  None \<Rightarrow> (Inl ValidationFailed, s)
                | Some weight_parsed \<Rightarrow>
                    save_new s
                      \<lparr>b_id = new_id, ref_id = [],
                       origin = schemaCode (trim (toUpperCase origin_in)),
                       destination = schemaCode (trim (toUpperCase destination_in)),
                       pieces = pieces_parsed, weight_kg = weight_parsed, status = BOOKED,
                       flightIds = ids, timeline = []\<rparr>
                      today now)))"

text \<open>
  \<open>getBookingHistory\<close>: the booking with its timeline sorted by timestamp
  (\<open>Array.prototype.sort\<close> is stable, as \<open>sort_key\<close> is).
\<close>

definition getBookingHistory :: "bookings \<Rightarrow> string \<Rightarrow> error + booking" where
  "getBookingHistory s bookingId =
     (case findBookingByIdentifier s bookingId of
        None \<Rightarrow> Inl BookingNotFound
      | Some bk \<Rightarrow> Inr (bk\<lparr>timeline := sort_key timestamp (timeline bk)\<rparr>))"

section \<open>Route search (controllers/routeController.js)\<close>

record direct_route =
  d_flight :: flight
  d_totalDuration :: int

record transit_route =
  firstLeg :: flight
  secondLeg :: flight
  transitCity :: string
  layoverDuration :: int
  totalDuration :: int

text \<open>
  \<open>Math.round((end - start) / (1000 * 60))\<close>: the nearest minute, a half rounded up.
\<close>

definition calculateDuration :: "int \<Rightarrow> int \<Rightarrow> int" where
  "calculateDuration startDate endDate = (endDate - startDate + 30000) div 60000"

text \<open>
  \<open>setHours\<close> and \<open>setDate\<close> work in the local time of the server, which is \<open>tz\<close>
  milliseconds ahead of UTC (a fixed offset). \<open>setHours tz t h m sec ms\<close> is
  \<open>t.setHours(h, m, sec, ms)\<close>; \<open>addDay t\<close> is \<open>t.setDate(t.getDate() + 1)\<close>.
\<close>

definition localDayStart :: "int \<Rightarrow> int \<Rightarrow> int" where
  "localDayStart tz t = ((t + tz) div 86400000) * 86400000 - tz"

definition setHours :: "int \<Rightarrow> int \<Rightarrow> int \<Rightarrow> int \<Rightarrow> int \<Rightarrow> int \<Rightarrow> int" where
  "setHours tz t h m sec ms = localDayStart tz t + h * 3600000 + m * 60000 + sec * 1000 + ms"

definition addDay :: "int \<Rightarrow> int" where
  "addDay t = t + 86400000"

text \<open>\<open>Flight.find(filter).sort({departureDateTime: 1})\<close>\<close>

definition findFlights :: "flight list \<Rightarrow> (flight \<Rightarrow> bool) \<Rightarrow> flight list" where
  "findFlights flights p = sort_key departureDateTime (filter p flights)"

definition getDirectFlights ::
  "flight list \<Rightarrow> string \<Rightarrow> string \<Rightarrow> int \<Rightarrow> int \<Rightarrow> direct_route list" where
  "getDirectFlights flights orig dest startDate endDate =
     map (\<lambda>f. \<lparr>d_flight = f,
               d_totalDuration = calculateDuration (departureDateTime f) (arrivalDateTime f)\<rparr>)
       (findFlights flights
          (\<lambda>f. f_origin f = orig \<and> f_destination f = dest \<and>
               startDate \<le> departureDateTime f \<and> departureDateTime f \<le> endDate))"

definition secondLegEndDate :: "int \<Rightarrow> int \<Rightarrow> int" where
  "secondLegEndDate tz firstLegArrival = setHours tz (addDay firstLegArrival) 23 59 59 999"

definition routesVia :: "int \<Rightarrow> flight list \<Rightarrow> string \<Rightarrow> flight \<Rightarrow> transit_route list" where
  "routesVia tz flights dest first =
     (let city = f_destination first;
          firstLegArrival = arrivalDateTime first;
          secondLegFlights =
            findFlights flights
              (\<lambda>f. f_origin f = city \<and> f_destination f = dest \<and>
                   firstLegArrival \<le> departureDateTime f \<and>
                   departureDateTime f \<le> secondLegEndDate tz firstLegArrival)
      in map (\<lambda>second.
               \<lparr>firstLeg = first, secondLeg = second, transitCity = city,
                layoverDuration = calculateDuration firstLegArrival (departureDateTime second),
                totalDuration =
                  calculateDuration (departureDateTime first) (arrivalDateTime second)\<rparr>)
           secondLegFlights)"

definition getTransitRoutes ::
  "int \<Rightarrow> flight list \<Rightarrow> string \<Rightarrow> string \<Rightarrow> int \<Rightarrow> int \<Rightarrow> transit_route list" where
  "getTransitRoutes tz flights orig dest startDate endDate =
     (let firstLegFlights =
            findFlights flights
              (\<lambda>f. f_origin f = orig \<and> f_destination f \<noteq> dest \<and>
                   startDate \<le> departureDateTime f \<and> departureDateTime f \<le> endDate)
      in if firstLegFlights = [] then []
         else sort_key totalDuration (concat (map (routesVia tz flights dest) firstLegFlights)))"

text \<open>
  \<open>getRoutes\<close>; \<open>departureDate\<close> is the instant \<open>new Date(departureDate)\<close> of the date
  submitted.
\<close>

definition getRoutes ::
  "int \<Rightarrow> flight list \<Rightarrow> string \<Rightarrow> string \<Rightarrow> int \<Rightarrow> direct_route list \<times> transit_route list" where
  "getRoutes tz flights orig dest departureDate =
     (let normalizedOrigin = trim (toUpperCase orig);
          normalizedDestination = trim (toUpperCase dest);
          startDate = setHours tz departureDate 0 0 0 0;
          endDate = setHours tz departureDate 23 59 59 999
      in (getDirectFlights flights normalizedOrigin normalizedDestination startDate endDate,
          getTransitRoutes tz flights normalizedOrigin normalizedDestination startDate endDate))"

section \<open>Steps of the booking store\<close>

text \<open>
  One step of the bookings collection: a lifecycle operation run from its read to its
  write, or the guarded write of an operation whose read came earlier, so that the booking
  \<open>bk\<close> it holds may be out of date with respect to the store it writes to.
\<close>

inductive lifecycle_step :: "flight list \<Rightarrow> bookings \<Rightarrow> bookings \<Rightarrow> bool" for flights where
  step_create:
    "createBooking flights s orig dest p w fs new_id today now = (r, s') \<Longrightarrow>
       lifecycle_step flights s s'"
| step_depart: "departBooking s ident fl now = (r, s') \<Longrightarrow> lifecycle_step flights s s'"
| step_arrive: "arriveBooking s ident fl now = (r, s') \<Longrightarrow> lifecycle_step flights s s'"
| step_cancel: "cancelBooking s ident now = (r, s') \<Longrightarrow> lifecycle_step flights s s'"
| step_depart_write: "depart_write s bk fl now = (r, s') \<Longrightarrow> lifecycle_step flights s s'"
| step_arrive_write: "arrive_write s bk fl now = (r, s') \<Longrightarrow> lifecycle_step flights s s'"
| step_cancel_write: "cancel_write s bk now = (r, s') \<Longrightarrow> lifecycle_step flights s s'"

text \<open>The transition table of the specification.\<close>

definition transition_table :: "(status \<times> status) set" where
  "transition_table =
     {(BOOKED, DEPARTED), (BOOKED, ARRIVED), (DEPARTED, ARRIVED),
      (BOOKED, CANCELLED), (DEPARTED, CANCELLED)}"

text \<open>
  What a guarded write does to the store: nothing, with an error, or the update of one
  document whose stored status was in the guard.
\<close>

definition guarded_update ::
  "status list \<Rightarrow> status \<Rightarrow> int \<Rightarrow> bookings \<Rightarrow> (error + booking) \<Rightarrow> bookings \<Rightarrow> bool" where
  "guarded_update v st now s r s' =
     ((s' = s \<and> (\<exists>e. r = Inl e)) \<or>
      (\<exists>k<length s. \<exists>fid. status (s ! k) \<in> set v \<and>
          r = Inr (set_and_push st now fid (s ! k)) \<and>
          s' = s[k := set_and_push st now fid (s ! k)]))"

text \<open>A booking that has arrived, as the store holds it after create, depart and arrive.\<close>

definition arrived_booking :: booking where
  "arrived_booking =
     \<lparr>b_id = ''65a1b2c3d4e5f60718293a4b'', ref_id = ''BOOK-20250101-000001'',
      origin = ''DEL'', destination = ''BOM'', pieces = 10, weight_kg = 500,
      status = ARRIVED, flightIds = [],
      timeline = [\<lparr>event = BOOKED, timestamp = 1735689600000, flightId = None\<rparr>,
                  \<lparr>event = DEPARTED, timestamp = 1735693200000, flightId = None\<rparr>,
                  \<lparr>event = ARRIVED, timestamp = 1735700400000, flightId = None\<rparr>]\<rparr>"

text \<open>The booking that \<open>createBooking\<close> stores for DEL to BOM on 1 January 2025.\<close>

definition booked_booking :: booking where
  "booked_booking =
     \<lparr>b_id = ''65a1b2c3d4e5f60718293a4c'', ref_id = ''BOOK-20250101-000001'',
      origin = ''DEL'', destination = ''BOM'', pieces = 10, weight_kg = 500,
      status = BOOKED, flightIds = [],
      timeline = [\<lparr>event = BOOKED, timestamp = 1735689600000, flightId = None\<rparr>]\<rparr>"

text \<open>
  The handler of \<open>GET /api/bookings/:bookingId\<close> (routes/bookingRoutes.js) resolves the
  identifier with the same two queries, written out in the handler.
\<close>

definition getBookingRoute :: "bookings \<Rightarrow> string \<Rightarrow> booking option" where
  "getBookingRoute s bookingId =
     (let bk = tryById s bookingId
      in (case bk of
            None \<Rightarrow> findOneByRefId s (trim (toUpperCase bookingId))
          | Some b \<Rightarrow> Some b))"

text \<open>
  The flights of the transit scenario, on 15 January 2025 in a server five and a half hours
  ahead of UTC: DEL to HYD 08:00 to 10:30, HYD to BLR 14:00 to 15:30, and HYD to BLR 09:00
  to 10:00, which leaves before the first leg lands.
\<close>

definition leg_del_hyd :: flight where
  "leg_del_hyd =
     \<lparr>f_id = ''65a1b2c3d4e5f60718293b01'', flightNumber = ''SG301'', airlineName = ''SpiceJet'',
      departureDateTime = 1736908200000, arrivalDateTime = 1736917200000,
      f_origin = ''DEL'', f_destination = ''HYD''\<rparr>"

definition leg_hyd_blr :: flight where
  "leg_hyd_blr =
     \<lparr>f_id = ''65a1b2c3d4e5f60718293b02'', flightNumber = ''VT401'', airlineName = ''Vistara'',
      departureDateTime = 1736929800000, arrivalDateTime = 1736935200000,
      f_origin = ''HYD'', f_destination = ''BLR''\<rparr>"

definition leg_hyd_blr_early :: flight where
  "leg_hyd_blr_early =
     \<lparr>f_id = ''65a1b2c3d4e5f60718293b03'', flightNumber = ''INVALID'',
      airlineName = ''Invalid Airlines'',
      departureDateTime = 1736911800000, arrivalDateTime = 1736915400000,
      f_origin = ''HYD'', f_destination = ''BLR''\<rparr>"

definition scenario_flights :: "flight list" where
  "scenario_flights = [leg_del_hyd, leg_hyd_blr, leg_hyd_blr_early]"

text \<open>A direct flight DEL to BLR on the same day, 12:00 to 14:30.\<close>

definition leg_del_blr :: flight where
  "leg_del_blr =
     \<lparr>f_id = ''65a1b2c3d4e5f60718293b04'', flightNumber = ''AI505'', airlineName = ''Air India'',
      departureDateTime = 1736922600000, arrivalDateTime = 1736931600000,
      f_origin = ''DEL'', f_destination = ''BLR''\<rparr>"

definition transit_via_hyd :: transit_route where
  "transit_via_hyd =
     \<lparr>firstLeg = leg_del_hyd, secondLeg = leg_hyd_blr, transitCity = ''HYD'',
      layoverDuration = 210, totalDuration = 450\<rparr>"

text \<open>
  The allocation of the reference id as the specification words it: the prefix
  \<open>BOOK-YYYYMMDD-\<close> of the UTC date, the greatest existing \<open>ref_id\<close> with that prefix in
  the order of strings, the decimal value of what follows the prefix in it plus one, or
  one when there is none, written with at least six digits.
\<close>

definition decimalValue :: "string \<Rightarrow> nat" where
  "decimalValue ds = foldl (\<lambda>a c. 10 * a + (of_char c - 48)) 0 ds"

definition zeroPadded :: "nat \<Rightarrow> nat \<Rightarrow> string" where
  "zeroPadded width n = replicate (width - length (decimal n)) (CHR ''0'') @ decimal n"

definition specPrefix :: "int \<Rightarrow> string" where
  "specPrefix creationDate =
     (case utcDate creationDate of (y, m, d) \<Rightarrow>
        ''BOOK-'' @ zeroPadded 4 (nat y) @ zeroPadded 2 m @ zeroPadded 2 d @ ''-'')"

definition allocate_spec :: "bookings \<Rightarrow> int \<Rightarrow> string" where
  "allocate_spec s creationDate =
     (let prefix = specPrefix creationDate;
          existing = filter (startsWith prefix) (map ref_id s);
          sequence = (if existing = [] then 1
                      else decimalValue (drop (length prefix) (Max (set existing))) + 1)
      in prefix @ zeroPadded 6 sequence)"

definition wellFormedSuffix :: "string \<Rightarrow> bool" where
  "wellFormedSuffix x = (x \<noteq> [] \<and> list_all isDigit x)"

text \<open>A collection with the first and the ninth booking of 1 January 2025.\<close>

definition two_bookings :: bookings where
  "two_bookings =
     [booked_booking,
      booked_booking\<lparr>b_id := ''65a1b2c3d4e5f60718293a4d'', ref_id := ''BOOK-20250101-000009''\<rparr>]"

text \<open>
  The collections reached from the empty one by steps of the store, whole operations and
  guarded writes after an earlier read alike, when the store serves the steps in the order
  of their clock readings: \<open>reachable flights t s\<close> holds when \<open>s\<close> is reached with every
  \<open>new Date()\<close> of the steps served so far at most \<open>t\<close>, and a further step's \<open>new Date()\<close> is
  no earlier than \<open>t\<close>. Operations that run one after the other under a clock that never
  goes back are such runs.
\<close>

inductive reachable :: "flight list \<Rightarrow> int \<Rightarrow> bookings \<Rightarrow> bool" for flights where
  reach_empty: "reachable flights t []"
| reach_create:
    "reachable flights t s \<Longrightarrow> t \<le> today \<Longrightarrow> today \<le> now \<Longrightarrow>
     createBooking flights s orig dest p w fs new_id today now = (r, s') \<Longrightarrow>
     reachable flights now s'"
| reach_depart:
    "reachable flights t s \<Longrightarrow> t \<le> now \<Longrightarrow> departBooking s ident fl now = (r, s') \<Longrightarrow>
     reachable flights now s'"
| reach_arrive:
    "reachable flights t s \<Longrightarrow> t \<le> now \<Longrightarrow> arriveBooking s ident fl now = (r, s') \<Longrightarrow>
     reachable flights now s'"
| reach_cancel:
    "reachable flights t s \<Longrightarrow> t \<le> now \<Longrightarrow> cancelBooking s ident now = (r, s') \<Longrightarrow>
     reachable flights now s'"
| reach_depart_write:
    "reachable flights t s \<Longrightarrow> t \<le> now \<Longrightarrow> depart_write s bk fl now = (r, s') \<Longrightarrow>
     reachable flights now s'"
| reach_arrive_write:
    "reachable flights t s \<Longrightarrow> t \<le> now \<Longrightarrow> arrive_write s bk fl now = (r, s') \<Longrightarrow>
     reachable flights now s'"
| reach_cancel_write:
    "reachable flights t s \<Longrightarrow> t \<le> now \<Longrightarrow> cancel_write s bk now = (r, s') \<Longrightarrow>
     reachable flights now s'"

text \<open>A timeline that starts with the creation entry.\<close>

definition timeline_started :: "booking \<Rightarrow> bool" where
  "timeline_started b = (timeline b \<noteq> [] \<and> event (hd (timeline b)) = BOOKED)"

definition timeline_ok :: "int \<Rightarrow> booking \<Rightarrow> bool" where
  "timeline_ok t b =
     (timeline b \<noteq> [] \<and> sorted (map timestamp (timeline b)) \<and>
      list_all (\<lambda>e. timestamp e \<le> t) (timeline b) \<and> event (hd (timeline b)) = BOOKED)"

text \<open>
  A call of \<open>cancelBooking\<close> in progress. Its two queries are two atomic steps of the
  store, and steps of other calls may come between them: the read
  (\<open>findBookingByIdentifier\<close>), after which the call holds the booking it has read, and the
  checks with the guarded write (\<open>cancel_write\<close>), after which it has finished with its
  result; the booking read is kept beside the result.
\<close>

datatype call = NotStarted | HasRead "booking option" | Finished "booking option" "error + booking"

fun cancel_step :: "string \<Rightarrow> int \<Rightarrow> bookings \<Rightarrow> call \<Rightarrow> bookings \<times> call" where
  "cancel_step ident now s NotStarted = (s, HasRead (findBookingByIdentifier s ident))"
| "cancel_step ident now s (HasRead None) = (s, Finished None (Inl BookingNotFound))"
| "cancel_step ident now s (HasRead (Some bk)) =
     (case cancel_write s bk now of (r, s') \<Rightarrow> (s', Finished (Some bk) r))"
| "cancel_step ident now s (Finished obs r) = (s, Finished obs r)"

text \<open>
  Two calls, with identifiers \<open>identA\<close> and \<open>identB\<close>, under a schedule: each entry says
  which call takes its next step (\<open>True\<close> for the first call) and what the clock reads.
\<close>

fun run_cancels ::
  "string \<Rightarrow> string \<Rightarrow> (bool \<times> int) list \<Rightarrow> bookings \<times> call \<times> call \<Rightarrow> bookings \<times> call \<times> call" where
  "run_cancels identA identB [] c = c"
| "run_cancels identA identB ((who, now) # sched) (s, a, b) =
     (if who then (case cancel_step identA now s a of (s', a') \<Rightarrow>
                     run_cancels identA identB sched (s', a', b))
      else (case cancel_step identB now s b of (s', b') \<Rightarrow>
                     run_cancels identA identB sched (s', a, b')))"

definition steps_of :: "bool \<Rightarrow> (bool \<times> int) list \<Rightarrow> nat" where
  "steps_of who sched = length (filter (\<lambda>e. fst e = who) sched)"

text \<open>
  How a call ends when another call has cancelled the booking \<open>bk\<close> into \<open>c\<close>: it had
  read \<open>bk\<close> and its guarded write matched nothing, or it read \<open>c\<close> and refused it.
\<close>

definition loses_to :: "booking \<Rightarrow> booking \<Rightarrow> booking option \<Rightarrow> error + booking \<Rightarrow> bool" where
  "loses_to bk c obs r =
     (obs = Some bk \<and> r = Inl CancellationFailed \<or>
      obs = Some c \<and> r = Inl (CannotCancel CANCELLED))"

definition before_write :: "booking \<Rightarrow> call \<Rightarrow> bool" where
  "before_write bk x = (x = NotStarted \<or> x = HasRead (Some bk))"

definition after_write :: "booking \<Rightarrow> booking \<Rightarrow> call \<Rightarrow> bool" where
  "after_write bk c x =
     (x = NotStarted \<or> x = HasRead (Some bk) \<or> x = HasRead (Some c) \<or>
      (\<exists>obs r. x = Finished obs r \<and> loses_to bk c obs r))"

definition race_inv :: "bookings \<Rightarrow> nat \<Rightarrow> bookings \<times> call \<times> call \<Rightarrow> bool" where
  "race_inv s0 k conf =
     (case conf of (s, a, b) \<Rightarrow>
        s = s0 \<and> before_write (s0 ! k) a \<and> before_write (s0 ! k) b \<or>
        (\<exists>now. s = s0[k := set_and_push CANCELLED now None (s0 ! k)] \<and>
           (a = Finished (Some (s0 ! k)) (Inr (set_and_push CANCELLED now None (s0 ! k))) \<and>
              after_write (s0 ! k) (set_and_push CANCELLED now None (s0 ! k)) b \<or>
            b = Finished (Some (s0 ! k)) (Inr (set_and_push CANCELLED now None (s0 ! k))) \<and>
              after_write (s0 ! k) (set_and_push CANCELLED now None (s0 ! k)) a)))"

fun progress :: "call \<Rightarrow> nat" where
  "progress NotStarted = 0"
| "progress (HasRead _) = 1"
| "progress (Finished _ _) = 2"

text \<open>Both calls read, then the second call writes first.\<close>

definition race_schedule :: "(bool \<times> int) list" where
  "race_schedule =
     [(True, 1735693200000), (False, 1735693200001), (False, 1735693200002),
      (True, 1735693200003)]"

section \<open>Properties of the guarded write\<close>

lemma findOneAndUpdate_cases:
  "findOneAndUpdate s i v u = (None, s) \<and> (\<forall>b\<in>set s. \<not> (b_id b = i \<and> status b \<in> set v))
   \<or> (\<exists>k<length s. b_id (s ! k) = i \<and> status (s ! k) \<in> set v \<and>
         (\<forall>j<k. \<not> (b_id (s ! j) = i \<and> status (s ! j) \<in> set v)) \<and>
         findOneAndUpdate s i v u = (Some (u (s ! k)), s[k := u (s ! k)]))"
proof (induction s)
  case Nil
  then show ?case by simp
next
  case (Cons b s)
  show ?case
  proof (cases "b_id b = i \<and> status b \<in> set v")
    case True
    then have "findOneAndUpdate (b # s) i v u
        = (Some (u ((b # s) ! 0)), (b # s)[0 := u ((b # s) ! 0)])"
      by simp
    with True show ?thesis by (intro disjI2 exI[of _ 0]) simp
  next
    case False
    from Cons.IH show ?thesis
    proof
      assume "findOneAndUpdate s i v u = (None, s)
        \<and> (\<forall>b\<in>set s. \<not> (b_id b = i \<and> status b \<in> set v))"
      with False show ?thesis by auto
    next
      assume "\<exists>k<length s. b_id (s ! k) = i \<and> status (s ! k) \<in> set v \<and>
         (\<forall>j<k. \<not> (b_id (s ! j) = i \<and> status (s ! j) \<in> set v)) \<and>
         findOneAndUpdate s i v u = (Some (u (s ! k)), s[k := u (s ! k)])"
      then obtain k where k: "k < length s" "b_id (s ! k) = i" "status (s ! k) \<in> set v"
         "\<forall>j<k. \<not> (b_id (s ! j) = i \<and> status (s ! j) \<in> set v)"
         "findOneAndUpdate s i v u = (Some (u (s ! k)), s[k := u (s ! k)])" by blast
      have "\<forall>j<Suc k. \<not> (b_id ((b # s) ! j) = i \<and> status ((b # s) ! j) \<in> set v)"
        using k(4) False by (auto simp: less_Suc_eq_0_disj)
      with k False show ?thesis
        by (intro disjI2 exI[of _ "Suc k"]) auto
    qed
  qed
qed

lemma guarded_case:
  assumes "(case findOneAndUpdate s i v (set_and_push st now fid) of
              (None, s') \<Rightarrow> (Inl e, s') | (Some u, s') \<Rightarrow> (Inr u, s')) = (r, s')"
  shows "guarded_update v st now s r s'"
proof -
  from findOneAndUpdate_cases [of s i v "set_and_push st now fid"]
  show ?thesis
  proof
    assume "findOneAndUpdate s i v (set_and_push st now fid) = (None, s) \<and>
        (\<forall>b\<in>set s. \<not> (b_id b = i \<and> status b \<in> set v))"
    with assms show ?thesis by (auto simp: guarded_update_def)
  next
    assume "\<exists>k<length s. b_id (s ! k) = i \<and> status (s ! k) \<in> set v \<and>
         (\<forall>j<k. \<not> (b_id (s ! j) = i \<and> status (s ! j) \<in> set v)) \<and>
         findOneAndUpdate s i v (set_and_push st now fid)
           = (Some (set_and_push st now fid (s ! k)), s[k := set_and_push st now fid (s ! k)])"
    then obtain k where "k < length s" "status (s ! k) \<in> set v"
       "findOneAndUpdate s i v (set_and_push st now fid)
           = (Some (set_and_push st now fid (s ! k)), s[k := set_and_push st now fid (s ! k)])"
      by blast
    with assms show ?thesis unfolding guarded_update_def by auto
  qed
qed

lemma depart_write_update:
  assumes "depart_write s bk fl now = (r, s')"
  shows "guarded_update validStatusesForDeparture DEPARTED now s r s'"
proof (cases "status bk \<in> set validStatusesForDeparture")
  case False
  with assms show ?thesis by (auto simp: depart_write_def guarded_update_def)
next
  case True
  show ?thesis
  proof (cases "timeline_flightId fl")
    case (Inl e)
    with assms True show ?thesis by (auto simp: depart_write_def guarded_update_def)
  next
    case (Inr fid)
    with assms True
    have "(case findOneAndUpdate s (b_id bk) validStatusesForDeparture (set_and_push DEPARTED now fid) of
             (None, s') \<Rightarrow> (Inl UpdateFailed, s') | (Some u, s') \<Rightarrow> (Inr u, s')) = (r, s')"
      by (simp add: depart_write_def)
    then show ?thesis by (rule guarded_case)
  qed
qed

lemma arrive_write_update:
  assumes "arrive_write s bk fl now = (r, s')"
  shows "guarded_update validStatusesForArrival ARRIVED now s r s'"
proof (cases "status bk \<in> set validStatusesForArrival")
  case False
  with assms show ?thesis by (auto simp: arrive_write_def guarded_update_def)
next
  case True
  show ?thesis
  proof (cases "timeline_flightId fl")
    case (Inl e)
    with assms True show ?thesis by (auto simp: arrive_write_def guarded_update_def)
  next
    case (Inr fid)
    with assms True
    have "(case findOneAndUpdate s (b_id bk) validStatusesForArrival (set_and_push ARRIVED now fid) of
             (None, s') \<Rightarrow> (Inl UpdateFailed, s') | (Some u, s') \<Rightarrow> (Inr u, s')) = (r, s')"
      by (simp add: arrive_write_def)
    then show ?thesis by (rule guarded_case)
  qed
qed

lemma cancel_write_update:
  assumes "cancel_write s bk now = (r, s')"
  shows "guarded_update validStatusesForCancellation CANCELLED now s r s'"
proof (cases "status bk \<in> set validStatusesForCancellation")
  case False
  with assms show ?thesis
    by (auto simp: cancel_write_def guarded_update_def split: if_splits)
next
  case True
  then have "status bk \<noteq> ARRIVED" by (auto simp: validStatusesForCancellation_def)
  with assms True
  have "(case findOneAndUpdate s (b_id bk) validStatusesForCancellation (set_and_push CANCELLED now None) of
           (None, s') \<Rightarrow> (Inl CancellationFailed, s') | (Some u, s') \<Rightarrow> (Inr u, s')) = (r, s')"
    by (simp add: cancel_write_def)
  then show ?thesis by (rule guarded_case)
qed

lemma guarded_update_refl: "guarded_update v st now s (Inl e) s"
  by (simp add: guarded_update_def)

lemma departBooking_update:
  "departBooking s ident fl now = (r, s') \<Longrightarrow>
     guarded_update validStatusesForDeparture DEPARTED now s r s'"
  unfolding departBooking_def
  by (auto split: option.splits intro: depart_write_update guarded_update_refl)

lemma arriveBooking_update:
  "arriveBooking s ident fl now = (r, s') \<Longrightarrow>
     guarded_update validStatusesForArrival ARRIVED now s r s'"
  unfolding arriveBooking_def
  by (auto split: option.splits intro: arrive_write_update guarded_update_refl)

lemma cancelBooking_update:
  "cancelBooking s ident now = (r, s') \<Longrightarrow>
     guarded_update validStatusesForCancellation CANCELLED now s r s'"
  unfolding cancelBooking_def
  by (auto split: option.splits intro: cancel_write_update guarded_update_refl)

text \<open>What \<open>createBooking\<close> does to the store: nothing, or one new document at the end.\<close>

lemma save_new_cases:
  "save_new s doc today now = (r, s') \<Longrightarrow>
     (s' = s \<and> (\<exists>e. r = Inl e)) \<or>
     (\<exists>b. r = Inr b \<and> s' = s @ [b] \<and> status b = status doc \<and>
          timeline b = initialTimeline (status doc) now \<and>
          origin b = origin doc \<and> destination b = destination doc \<and>
          pieces b = pieces doc \<and> weight_kg b = weight_kg doc \<and>
          \<not> list_ex (\<lambda>x. b_id x = b_id b \<or> ref_id x = ref_id b) s)"
  unfolding save_new_def by (auto simp: Let_def split: if_splits)

lemma createBooking_cases:
  "createBooking flights s orig dest p w fs new_id today now = (r, s') \<Longrightarrow>
     (s' = s \<and> (\<exists>e. r = Inl e)) \<or>
     (\<exists>b. r = Inr b \<and> s' = s @ [b] \<and> status b = BOOKED \<and>
          timeline b = initialTimeline BOOKED now)"
  unfolding createBooking_def
  by (auto split: sum.splits option.splits dest!: save_new_cases)

lemma status_set_and_push [simp]: "status (set_and_push st now fid b) = st"
  by (simp add: set_and_push_def)

lemma guarded_update_status:
  assumes "guarded_update v st now s r s'" and "\<forall>x\<in>set v. (x, st) \<in> transition_table"
  shows "length s' = length s \<and>
         (\<forall>k<length s. status (s' ! k) = status (s ! k) \<or>
                        (status (s ! k), status (s' ! k)) \<in> transition_table)"
  using assms unfolding guarded_update_def
  by (auto simp: nth_list_update)

lemma valid_statuses_in_table:
  "\<forall>x\<in>set validStatusesForDeparture. (x, DEPARTED) \<in> transition_table"
  "\<forall>x\<in>set validStatusesForArrival. (x, ARRIVED) \<in> transition_table"
  "\<forall>x\<in>set validStatusesForCancellation. (x, CANCELLED) \<in> transition_table"
  by (simp_all add: validStatusesForDeparture_def validStatusesForArrival_def
        validStatusesForCancellation_def transition_table_def)

lemma lifecycle_step_status:
  assumes "lifecycle_step flights s s'"
  shows "length s \<le> length s' \<and>
         (\<forall>k<length s'. if k < length s
             then status (s' ! k) = status (s ! k) \<or>
                  (status (s ! k), status (s' ! k)) \<in> transition_table
             else status (s' ! k) = BOOKED)"
  using assms
proof cases
  case (step_create orig dest p w fs new_id today now r)
  from createBooking_cases [OF this] show ?thesis
    by (auto simp: nth_append)
next
  case (step_depart ident fl now r)
  from guarded_update_status [OF departBooking_update [OF this] valid_statuses_in_table(1)]
  show ?thesis by simp
next
  case (step_arrive ident fl now r)
  from guarded_update_status [OF arriveBooking_update [OF this] valid_statuses_in_table(2)]
  show ?thesis by simp
next
  case (step_cancel ident now r)
  from guarded_update_status [OF cancelBooking_update [OF this] valid_statuses_in_table(3)]
  show ?thesis by simp
next
  case (step_depart_write bk fl now r)
  from guarded_update_status [OF depart_write_update [OF this] valid_statuses_in_table(1)]
  show ?thesis by simp
next
  case (step_arrive_write bk fl now r)
  from guarded_update_status [OF arrive_write_update [OF this] valid_statuses_in_table(2)]
  show ?thesis by simp
next
  case (step_cancel_write bk now r)
  from guarded_update_status [OF cancel_write_update [OF this] valid_statuses_in_table(3)]
  show ?thesis by simp
qed

lemma guarded_update_frame:
  assumes "guarded_update v st now s r s'" "k < length s" "status (s ! k) \<notin> set v"
  shows "length s' = length s \<and> s' ! k = s ! k"
  using assms unfolding guarded_update_def
  by (auto simp: nth_list_update)

lemma lifecycle_step_frame:
  assumes "lifecycle_step flights s s'" "k < length s"
    and "status (s ! k) \<noteq> BOOKED" "status (s ! k) \<noteq> DEPARTED"
  shows "k < length s' \<and> s' ! k = s ! k"
  using assms(1)
proof cases
  case (step_create orig dest p w fs new_id today now r)
  from createBooking_cases [OF this] assms(2) show ?thesis
    by (auto simp: nth_append)
next
  case (step_depart ident fl now r)
  from guarded_update_frame [OF departBooking_update [OF this] assms(2)] assms(2-4)
  show ?thesis by (simp add: validStatusesForDeparture_def)
next
  case (step_arrive ident fl now r)
  from guarded_update_frame [OF arriveBooking_update [OF this] assms(2)] assms(2-4)
  show ?thesis by (simp add: validStatusesForArrival_def)
next
  case (step_cancel ident now r)
  from guarded_update_frame [OF cancelBooking_update [OF this] assms(2)] assms(2-4)
  show ?thesis by (simp add: validStatusesForCancellation_def)
next
  case (step_depart_write bk fl now r)
  from guarded_update_frame [OF depart_write_update [OF this] assms(2)] assms(2-4)
  show ?thesis by (simp add: validStatusesForDeparture_def)
next
  case (step_arrive_write bk fl now r)
  from guarded_update_frame [OF arrive_write_update [OF this] assms(2)] assms(2-4)
  show ?thesis by (simp add: validStatusesForArrival_def)
next
  case (step_cancel_write bk now r)
  from guarded_update_frame [OF cancel_write_update [OF this] assms(2)] assms(2-4)
  show ?thesis by (simp add: validStatusesForCancellation_def)
qed

lemma lifecycle_steps_frame:
  assumes "(lifecycle_step flights)\<^sup>*\<^sup>* s s'" "k < length s"
    and "status (s ! k) \<noteq> BOOKED" "status (s ! k) \<noteq> DEPARTED"
  shows "k < length s' \<and> s' ! k = s ! k"
  using assms
proof (induction rule: rtranclp_induct)
  case base
  then show ?case by simp
next
  case (step y z)
  then have "k < length y \<and> y ! k = s ! k" by simp
  with step.hyps(2) step.prems show ?case
    using lifecycle_step_frame [of flights y z k] by simp
qed

text \<open>
  C2. A cancel that has read the status ARRIVED fails with the error "Cannot cancel booking
  that has already ARRIVED" (an InvalidTransition) and leaves the store as it is, without a
  write, whatever the store holds by then; and no sequence of steps of the store changes
  a stored booking whose status is ARRIVED: it stays in its place with its status, its
  timeline and every other field, so it never becomes CANCELLED.
\<close>

theorem cancel_of_arrived_booking_rejected:
  "(status bk = ARRIVED \<longrightarrow>
      cancel_write s bk now = (Inl CannotCancelArrived, s) \<and>
      kind CannotCancelArrived = InvalidTransition)
   \<and> (findBookingByIdentifier s ident = Some bk \<and> status bk = ARRIVED \<longrightarrow>
        cancelBooking s ident now = (Inl CannotCancelArrived, s))
   \<and> ((lifecycle_step flights)\<^sup>*\<^sup>* s s' \<and> k < length s \<and> status (s ! k) = ARRIVED \<longrightarrow>
        k < length s' \<and> s' ! k = s ! k \<and> status (s' ! k) \<noteq> CANCELLED)"
proof (intro conjI impI)
  assume "status bk = ARRIVED"
  then show "cancel_write s bk now = (Inl CannotCancelArrived, s)"
    by (simp add: cancel_write_def)
next
  show "kind CannotCancelArrived = InvalidTransition" by simp
next
  assume "findBookingByIdentifier s ident = Some bk \<and> status bk = ARRIVED"
  then show "cancelBooking s ident now = (Inl CannotCancelArrived, s)"
    by (simp add: cancelBooking_def cancel_write_def)
next
  assume a: "(lifecycle_step flights)\<^sup>*\<^sup>* s s' \<and> k < length s \<and> status (s ! k) = ARRIVED"
  then have "k < length s' \<and> s' ! k = s ! k"
    using lifecycle_steps_frame [of flights s s' k] by simp
  with a show "k < length s'" "s' ! k = s ! k" "status (s' ! k) \<noteq> CANCELLED" by simp_all
qed

theorem cancel_of_arrived_booking_rejected_witness:
  "findBookingByIdentifier [arrived_booking] '' book-20250101-000001 '' = Some arrived_booking
   \<and> status arrived_booking = ARRIVED
   \<and> cancel_write [arrived_booking] arrived_booking 1735704000000
       = (Inl CannotCancelArrived, [arrived_booking])
   \<and> cancelBooking [arrived_booking] '' book-20250101-000001 '' 1735704000000
       = (Inl CannotCancelArrived, [arrived_booking])
   \<and> (lifecycle_step [])\<^sup>*\<^sup>* [arrived_booking] [arrived_booking]
   \<and> [arrived_booking] ! 0 = arrived_booking"
proof -
  have f: "findBookingByIdentifier [arrived_booking] '' book-20250101-000001 ''
             = Some arrived_booking"
    by code_simp
  have st: "status arrived_booking = ARRIVED" by (simp add: arrived_booking_def)
  have "cancelBooking [arrived_booking] (b_id arrived_booking) 1735704000000
          = (Inl CannotCancelArrived, [arrived_booking])"
    by code_simp
  then have "lifecycle_step [] [arrived_booking] [arrived_booking]"
    by (rule step_cancel)
  then have step: "(lifecycle_step [])\<^sup>*\<^sup>* [arrived_booking] [arrived_booking]"
    by (rule r_into_rtranclp)
  from cancel_of_arrived_booking_rejected
         [of arrived_booking "[arrived_booking]" 1735704000000
             "'' book-20250101-000001 ''" "[]" "[arrived_booking]" 0]
       f st step
  show ?thesis by simp
qed


text \<open>
  C3. A successful depart changes one stored booking from BOOKED to DEPARTED, a successful
  arrive one from BOOKED or DEPARTED to ARRIVED, a successful cancel one from BOOKED or
  DEPARTED to CANCELLED, each by setting the status and appending the timeline entry; a
  successful create appends a booking in status BOOKED; and in every step of the store
  each stored booking keeps its status or changes it along the transition table, and each
  booking new in the store is BOOKED.
\<close>

theorem lifecycle_follows_transition_table:
  "(departBooking s ident fl now = (Inr u, s') \<longrightarrow>
      (\<exists>k<length s. \<exists>fid. status (s ! k) = BOOKED \<and> status u = DEPARTED \<and>
          u = set_and_push DEPARTED now fid (s ! k) \<and> s' = s[k := u]))
   \<and> (arriveBooking s ident fl now = (Inr u, s') \<longrightarrow>
      (\<exists>k<length s. \<exists>fid. status (s ! k) \<in> {BOOKED, DEPARTED} \<and> status u = ARRIVED \<and>
          u = set_and_push ARRIVED now fid (s ! k) \<and> s' = s[k := u]))
   \<and> (cancelBooking s ident now = (Inr u, s') \<longrightarrow>
      (\<exists>k<length s. \<exists>fid. status (s ! k) \<in> {BOOKED, DEPARTED} \<and> status u = CANCELLED \<and>
          u = set_and_push CANCELLED now fid (s ! k) \<and> s' = s[k := u]))
   \<and> (createBooking flights s orig dest p w fs new_id today now = (Inr u, s') \<longrightarrow>
        status u = BOOKED \<and> s' = s @ [u])
   \<and> (lifecycle_step flights s s' \<longrightarrow>
        length s \<le> length s' \<and>
        (\<forall>k<length s'. if k < length s
            then status (s' ! k) = status (s ! k) \<or>
                 (status (s ! k), status (s' ! k)) \<in> transition_table
            else status (s' ! k) = BOOKED))"
proof (intro conjI impI)
  assume "departBooking s ident fl now = (Inr u, s')"
  from departBooking_update [OF this]
  show "\<exists>k<length s. \<exists>fid. status (s ! k) = BOOKED \<and> status u = DEPARTED \<and>
          u = set_and_push DEPARTED now fid (s ! k) \<and> s' = s[k := u]"
    unfolding guarded_update_def by (auto simp: validStatusesForDeparture_def)
next
  assume "arriveBooking s ident fl now = (Inr u, s')"
  from arriveBooking_update [OF this]
  show "\<exists>k<length s. \<exists>fid. status (s ! k) \<in> {BOOKED, DEPARTED} \<and> status u = ARRIVED \<and>
          u = set_and_push ARRIVED now fid (s ! k) \<and> s' = s[k := u]"
    unfolding guarded_update_def by (auto simp: validStatusesForArrival_def)
next
  assume "cancelBooking s ident now = (Inr u, s')"
  from cancelBooking_update [OF this]
  show "\<exists>k<length s. \<exists>fid. status (s ! k) \<in> {BOOKED, DEPARTED} \<and> status u = CANCELLED \<and>
          u = set_and_push CANCELLED now fid (s ! k) \<and> s' = s[k := u]"
    unfolding guarded_update_def by (auto simp: validStatusesForCancellation_def)
next
  assume "createBooking flights s orig dest p w fs new_id today now = (Inr u, s')"
  from createBooking_cases [OF this]
  show "status u = BOOKED" and "s' = s @ [u]" by auto
next
  assume "lifecycle_step flights s s'"
  from lifecycle_step_status [OF this]
  show "length s \<le> length s'"
    and "\<forall>k<length s'. if k < length s
            then status (s' ! k) = status (s ! k) \<or>
                 (status (s ! k), status (s' ! k)) \<in> transition_table
            else status (s' ! k) = BOOKED"
    by blast+
qed


theorem lifecycle_follows_transition_table_witness:
  "departBooking [booked_booking] ''book-20250101-000001'' None 1735693200000
     = (Inr (set_and_push DEPARTED 1735693200000 None booked_booking),
        [set_and_push DEPARTED 1735693200000 None booked_booking])
   \<and> (\<exists>k<length [booked_booking]. status ([booked_booking] ! k) = BOOKED)
   \<and> arriveBooking [booked_booking] (b_id booked_booking) None 1735693200000
     = (Inr (set_and_push ARRIVED 1735693200000 None booked_booking),
        [set_and_push ARRIVED 1735693200000 None booked_booking])
   \<and> cancelBooking [booked_booking] (b_id booked_booking) 1735693200000
     = (Inr (set_and_push CANCELLED 1735693200000 None booked_booking),
        [set_and_push CANCELLED 1735693200000 None booked_booking])
   \<and> createBooking [] [] ''del'' ''bom '' ''10'' ''500'' [] (b_id booked_booking)
        1735689600000 1735689600000 = (Inr booked_booking, [booked_booking])
   \<and> status booked_booking = BOOKED
   \<and> lifecycle_step [] [] [booked_booking]
   \<and> length ([] :: bookings) \<le> length [booked_booking]"
proof -
  let ?t = "1735693200000 :: int"
  have d: "departBooking [booked_booking] ''book-20250101-000001'' None ?t
     = (Inr (set_and_push DEPARTED ?t None booked_booking),
        [set_and_push DEPARTED ?t None booked_booking])"
    by code_simp
  have a: "arriveBooking [booked_booking] (b_id booked_booking) None ?t
     = (Inr (set_and_push ARRIVED ?t None booked_booking),
        [set_and_push ARRIVED ?t None booked_booking])"
    by code_simp
  have c: "cancelBooking [booked_booking] (b_id booked_booking) ?t
     = (Inr (set_and_push CANCELLED ?t None booked_booking),
        [set_and_push CANCELLED ?t None booked_booking])"
    by code_simp
  have n: "createBooking [] [] ''del'' ''bom '' ''10'' ''500'' [] (b_id booked_booking)
        1735689600000 1735689600000 = (Inr booked_booking, [booked_booking])"
    by code_simp
  have st: "lifecycle_step [] [] [booked_booking]"
    by (rule step_create [OF n])
  from lifecycle_follows_transition_table
         [of "[booked_booking]" "''book-20250101-000001''" None ?t
             "set_and_push DEPARTED ?t None booked_booking"
             "[set_and_push DEPARTED ?t None booked_booking]"] d
  have 1: "\<exists>k<length [booked_booking]. status ([booked_booking] ! k) = BOOKED"
    by blast
  from lifecycle_follows_transition_table
         [of "[]" _ _ _ booked_booking "[booked_booking]" "[]" "''del''" "''bom ''" "''10''" "''500''" "[]"
             "b_id booked_booking" 1735689600000] n st
  have 2: "status booked_booking = BOOKED"
    and 3: "length ([] :: bookings) \<le> length [booked_booking]"
    by blast+
  from d 1 a c n 2 st 3 show ?thesis by blast
qed

section \<open>Properties of the string functions\<close>

lemma isSpace_toUpperChar [simp]: "isSpace (toUpperChar c) = isSpace c"
  by (auto simp: isSpace_def toUpperChar_def Let_def)

lemma toUpperChar_idem [simp]: "toUpperChar (toUpperChar c) = toUpperChar c"
  by (auto simp: toUpperChar_def Let_def)

lemma toUpperCase_idem [simp]: "toUpperCase (toUpperCase s) = toUpperCase s"
  by (simp add: toUpperCase_def)

lemma toUpperCase_append [simp]: "toUpperCase (xs @ ys) = toUpperCase xs @ toUpperCase ys"
  by (simp add: toUpperCase_def)

lemma dropWhile_isSpace_toUpperCase:
  "dropWhile isSpace (toUpperCase s) = toUpperCase (dropWhile isSpace s)"
  by (induction s) (auto simp: toUpperCase_def)

lemma toUpperCase_rev: "toUpperCase (rev s) = rev (toUpperCase s)"
  by (simp add: toUpperCase_def rev_map)

lemma trim_toUpperCase: "trim (toUpperCase s) = toUpperCase (trim s)"
  by (simp add: trim_def dropWhile_isSpace_toUpperCase toUpperCase_rev [symmetric])

lemma rev_dropWhile_rev_Cons:
  "\<not> P y \<Longrightarrow> rev (dropWhile P (rev (y # ys))) = y # rev (dropWhile P (rev ys))"
  by (simp add: dropWhile_append3)

lemma dropWhile_rev_dropWhile:
  "dropWhile P (rev (dropWhile P (rev (dropWhile P xs))))
     = rev (dropWhile P (rev (dropWhile P xs)))"
proof (cases "dropWhile P xs")
  case Nil
  then show ?thesis by (simp del: dropWhile_eq_Nil_conv)
next
  case (Cons y ys)
  then have "\<not> P y" by (metis hd_dropWhile list.sel(1) list.distinct(1))
  then have "rev (dropWhile P (rev (y # ys))) = y # rev (dropWhile P (rev ys))"
    by (rule rev_dropWhile_rev_Cons)
  with \<open>\<not> P y\<close> show ?thesis
    unfolding Cons by simp
qed

lemma trim_idem [simp]: "trim (trim s) = trim s"
  unfolding trim_def by (simp add: dropWhile_rev_dropWhile)

lemma trim_padding:
  assumes "list_all isSpace pre" "list_all isSpace post"
  shows "trim (pre @ x @ post) = trim x"
proof -
  have 1: "dropWhile isSpace (pre @ x @ post) = dropWhile isSpace (x @ post)"
    using assms(1) by (simp add: list_all_iff)
  have 2: "dropWhile isSpace (rev post @ ys) = dropWhile isSpace ys" for ys
  proof (rule dropWhile_append2)
    fix c assume "c \<in> set (rev post)"
    with assms(2) show "isSpace c" by (simp add: list_all_iff)
  qed
  show ?thesis
  proof (cases "\<forall>c\<in>set x. isSpace c")
    case True
    with assms have "\<forall>c\<in>set (pre @ x @ post). isSpace c"
      by (auto simp: list_all_iff)
    then have a: "dropWhile isSpace (pre @ x @ post) = []"
      by (simp only: dropWhile_eq_Nil_conv)
    from True have b: "dropWhile isSpace x = []"
      by (simp only: dropWhile_eq_Nil_conv)
    show ?thesis by (simp only: trim_def a b)
  next
    case False
    then obtain c where "c \<in> set x" "\<not> isSpace c" by blast
    then have "dropWhile isSpace (x @ post) = dropWhile isSpace x @ post"
      by simp
    with 1 2 show ?thesis by (simp add: trim_def)
  qed
qed


section \<open>Resolving a booking by identifier\<close>

text \<open>
  C10. The lookup by store id comes first: an identifier that is a valid object id of a
  stored booking resolves to that booking. Otherwise the lookup is by \<open>ref_id\<close> on the
  identifier upper-cased and trimmed, so that an identifier and a variant of it in another
  letter case, with white space around it, neither resolved by store id, give the same
  booking and the same outcome of depart, arrive, cancel, history and of the GET handler.
\<close>

theorem identifier_lookup_normalised:
  "(tryById s ident = Some b \<longrightarrow> findBookingByIdentifier s ident = Some b)
   \<and> (tryById s ident = None \<longrightarrow>
        findBookingByIdentifier s ident = findOneByRefId s (trim (toUpperCase ident)))
   \<and> (list_all isSpace pre \<and> list_all isSpace post \<and> toUpperCase x = toUpperCase y \<and>
        tryById s (pre @ x @ post) = None \<and> tryById s y = None \<longrightarrow>
          findBookingByIdentifier s (pre @ x @ post) = findBookingByIdentifier s y \<and>
          departBooking s (pre @ x @ post) fl now = departBooking s y fl now \<and>
          arriveBooking s (pre @ x @ post) fl now = arriveBooking s y fl now \<and>
          cancelBooking s (pre @ x @ post) now = cancelBooking s y now \<and>
          getBookingHistory s (pre @ x @ post) = getBookingHistory s y \<and>
          getBookingRoute s (pre @ x @ post) = getBookingRoute s y)"
proof (intro conjI impI)
  assume "tryById s ident = Some b"
  then show "findBookingByIdentifier s ident = Some b"
    by (simp add: findBookingByIdentifier_def)
next
  assume "tryById s ident = None"
  then show "findBookingByIdentifier s ident = findOneByRefId s (trim (toUpperCase ident))"
    by (simp add: findBookingByIdentifier_def)
next
  assume a: "list_all isSpace pre \<and> list_all isSpace post \<and> toUpperCase x = toUpperCase y \<and>
        tryById s (pre @ x @ post) = None \<and> tryById s y = None"
  then have "list_all isSpace (toUpperCase pre)" "list_all isSpace (toUpperCase post)"
    by (simp_all add: toUpperCase_def list_all_iff)
  then have "trim (toUpperCase pre @ toUpperCase x @ toUpperCase post) = trim (toUpperCase x)"
    by (rule trim_padding)
  with a have n: "trim (toUpperCase (pre @ x @ post)) = trim (toUpperCase y)" by simp
  with a show f: "findBookingByIdentifier s (pre @ x @ post) = findBookingByIdentifier s y"
    by (simp add: findBookingByIdentifier_def)
  then show "departBooking s (pre @ x @ post) fl now = departBooking s y fl now"
    and "arriveBooking s (pre @ x @ post) fl now = arriveBooking s y fl now"
    and "cancelBooking s (pre @ x @ post) now = cancelBooking s y now"
    and "getBookingHistory s (pre @ x @ post) = getBookingHistory s y"
    by (simp_all add: departBooking_def arriveBooking_def cancelBooking_def
          getBookingHistory_def)
  from a n show "getBookingRoute s (pre @ x @ post) = getBookingRoute s y"
    by (simp add: getBookingRoute_def)
qed

theorem identifier_lookup_normalised_witness:
  "tryById [booked_booking] ''65A1B2C3D4E5F60718293A4C'' = Some booked_booking
   \<and> findBookingByIdentifier [booked_booking] ''65A1B2C3D4E5F60718293A4C'' = Some booked_booking
   \<and> tryById [booked_booking] '' book-20250101-000001  '' = None
   \<and> tryById [booked_booking] ''BOOK-20250101-000001'' = None
   \<and> findBookingByIdentifier [booked_booking] '' book-20250101-000001  '' = Some booked_booking
   \<and> findBookingByIdentifier [booked_booking] ''BOOK-20250101-000001'' = Some booked_booking
   \<and> cancelBooking [booked_booking] ('' '' @ ''book-20250101-000001'' @ ''  '') 1735693200000
       = cancelBooking [booked_booking] ''BOOK-20250101-000001'' 1735693200000"
proof -
  let ?s = "[booked_booking]"
  have 1: "tryById ?s ''65A1B2C3D4E5F60718293A4C'' = Some booked_booking" by code_simp
  have 2: "tryById ?s ('' '' @ ''book-20250101-000001'' @ ''  '') = None" by code_simp
  have 3: "tryById ?s ''BOOK-20250101-000001'' = None" by code_simp
  have 4: "list_all isSpace '' ''" "list_all isSpace ''  ''" by code_simp+
  have 5: "toUpperCase ''book-20250101-000001'' = toUpperCase ''BOOK-20250101-000001''"
    by code_simp
  have 6: "findBookingByIdentifier ?s ''BOOK-20250101-000001'' = Some booked_booking"
    by code_simp
  from identifier_lookup_normalised
         [of ?s "''65A1B2C3D4E5F60718293A4C''" booked_booking] 1
  have 7: "findBookingByIdentifier ?s ''65A1B2C3D4E5F60718293A4C'' = Some booked_booking"
    by blast
  from identifier_lookup_normalised
         [of ?s _ _ "'' ''" "''  ''" "''book-20250101-000001''" "''BOOK-20250101-000001''"
             None 1735693200000] 2 3 4 5
  have 8: "findBookingByIdentifier ?s ('' '' @ ''book-20250101-000001'' @ ''  '')
             = findBookingByIdentifier ?s ''BOOK-20250101-000001''"
    and 9: "cancelBooking ?s ('' '' @ ''book-20250101-000001'' @ ''  '') 1735693200000
             = cancelBooking ?s ''BOOK-20250101-000001'' 1735693200000"
    by blast+
  from 1 2 3 6 7 8 9 show ?thesis by simp
qed

section \<open>Route search\<close>

lemma set_findFlights [simp]: "set (findFlights flights p) = {f \<in> set flights. p f}"
  by (auto simp: findFlights_def)

lemma routesVia_mem:
  "r \<in> set (routesVia tz flights dest first) \<longleftrightarrow>
     (\<exists>second \<in> set flights.
        f_origin second = f_destination first \<and> f_destination second = dest \<and>
        arrivalDateTime first \<le> departureDateTime second \<and>
        departureDateTime second \<le> secondLegEndDate tz (arrivalDateTime first) \<and>
        r = \<lparr>firstLeg = first, secondLeg = second, transitCity = f_destination first,
             layoverDuration =
               calculateDuration (arrivalDateTime first) (departureDateTime second),
             totalDuration =
               calculateDuration (departureDateTime first) (arrivalDateTime second)\<rparr>)"
  unfolding routesVia_def Let_def by auto

lemma getTransitRoutes_set:
  "set (getTransitRoutes tz flights orig dest startDate endDate) =
     (\<Union>first \<in> {f \<in> set flights. f_origin f = orig \<and> f_destination f \<noteq> dest \<and>
                     startDate \<le> departureDateTime f \<and> departureDateTime f \<le> endDate}.
        set (routesVia tz flights dest first))"
proof -
  define P where "P = (\<lambda>f :: flight. f_origin f = orig \<and> f_destination f \<noteq> dest \<and>
                     startDate \<le> departureDateTime f \<and> departureDateTime f \<le> endDate)"
  have def: "getTransitRoutes tz flights orig dest startDate endDate =
      (if findFlights flights P = [] then []
       else sort_key totalDuration (concat (map (routesVia tz flights dest) (findFlights flights P))))"
    unfolding getTransitRoutes_def P_def Let_def ..
  have st: "set (findFlights flights P) = {f \<in> set flights. P f}" by (rule set_findFlights)
  have "set (getTransitRoutes tz flights orig dest startDate endDate) =
      (\<Union>first \<in> set (findFlights flights P). set (routesVia tz flights dest first))"
  proof (cases "findFlights flights P = []")
    case True
    then show ?thesis by (simp only: def if_True) simp
  next
    case False
    then show ?thesis by (simp only: def if_False set_sort set_concat set_map image_image)
  qed
  then show ?thesis by (simp only: st) (simp only: P_def)
qed

lemma getTransitRoutes_mem:
  "r \<in> set (getTransitRoutes tz flights orig dest startDate endDate) \<longleftrightarrow>
     (\<exists>first \<in> set flights.
        f_origin first = orig \<and> f_destination first \<noteq> dest \<and>
        startDate \<le> departureDateTime first \<and> departureDateTime first \<le> endDate \<and>
        r \<in> set (routesVia tz flights dest first))"
  unfolding getTransitRoutes_set by blast

lemma getDirectFlights_flights:
  "d_flight ` set (getDirectFlights flights orig dest startDate endDate)
     = {f \<in> set flights. f_origin f = orig \<and> f_destination f = dest \<and>
          startDate \<le> departureDateTime f \<and> departureDateTime f \<le> endDate}"
  unfolding getDirectFlights_def by (auto simp: image_iff)


text \<open>The end of the window is the last millisecond of the local day after the arrival.\<close>

lemma secondLegEndDate_next_day:
  "secondLegEndDate tz a = localDayStart tz a + 2 * 86400000 - 1"
proof -
  have "(a + 86400000 + tz) div 86400000 = (a + tz) div 86400000 + 1"
    by simp
  then show ?thesis
    by (simp add: secondLegEndDate_def setHours_def addDay_def localDayStart_def algebra_simps)
qed

lemma localDayStart_bounds:
  "localDayStart tz a \<le> a \<and> a < localDayStart tz a + 86400000"
proof -
  have "(a + tz) div 86400000 * 86400000 \<le> a + tz"
    by simp
  moreover have "a + tz < (a + tz) div 86400000 * 86400000 + 86400000"
    using pos_mod_bound [of 86400000 "a + tz"] div_mult_mod_eq [of "a + tz" 86400000]
    by linarith
  ultimately show ?thesis by (simp add: localDayStart_def)
qed


text \<open>
  C4. In every transit route that \<open>getRoutes\<close> returns, the second leg departs no earlier
  than the first leg arrives and no later than the last millisecond of the day after the
  arrival, in the local time of the server: \<open>localDayStart tz a\<close> is the local midnight
  at or before the arrival \<open>a\<close>. In the scenario DEL to HYD 08:00 to 10:30, HYD to BLR 14:00
  to 15:30, the flight HYD to BLR that departs at 09:00, before the first leg arrives, is
  in the catalogue and is paired with no first leg: the only transit route is the one
  through the 14:00 flight, with a layover of 210 and a total of 450 minutes.
\<close>

theorem second_leg_departs_within_window:
  "(r \<in> set (snd (getRoutes tz flights orig dest departureDate)) \<longrightarrow>
      arrivalDateTime (firstLeg r) \<le> departureDateTime (secondLeg r) \<and>
      departureDateTime (secondLeg r)
        \<le> localDayStart tz (arrivalDateTime (firstLeg r)) + 2 * 86400000 - 1 \<and>
      localDayStart tz (arrivalDateTime (firstLeg r)) \<le> arrivalDateTime (firstLeg r) \<and>
      arrivalDateTime (firstLeg r) < localDayStart tz (arrivalDateTime (firstLeg r)) + 86400000)
   \<and> leg_hyd_blr_early \<in> set scenario_flights
   \<and> f_origin leg_hyd_blr_early = f_destination leg_del_hyd
   \<and> f_destination leg_hyd_blr_early = ''BLR''
   \<and> departureDateTime leg_hyd_blr_early < arrivalDateTime leg_del_hyd
   \<and> snd (getRoutes 19800000 scenario_flights ''DEL'' ''BLR'' 1736899200000) = [transit_via_hyd]
   \<and> leg_hyd_blr_early
        \<notin> secondLeg ` set (snd (getRoutes 19800000 scenario_flights ''DEL'' ''BLR'' 1736899200000))"
proof -
  have general: "arrivalDateTime (firstLeg r) \<le> departureDateTime (secondLeg r) \<and>
      departureDateTime (secondLeg r)
        \<le> localDayStart tz (arrivalDateTime (firstLeg r)) + 2 * 86400000 - 1"
    if "r \<in> set (snd (getRoutes tz flights orig dest departureDate))"
  proof -
    from that obtain first where
      "r \<in> set (routesVia tz flights (trim (toUpperCase dest)) first)"
      by (auto simp: getRoutes_def Let_def getTransitRoutes_mem)
    then have "arrivalDateTime (firstLeg r) \<le> departureDateTime (secondLeg r) \<and>
        departureDateTime (secondLeg r) \<le> secondLegEndDate tz (arrivalDateTime (firstLeg r))"
      by (auto simp: routesVia_mem)
    then show ?thesis by (simp only: secondLegEndDate_next_day)
  qed
  have ex: "snd (getRoutes 19800000 scenario_flights ''DEL'' ''BLR'' 1736899200000)
              = [transit_via_hyd]"
    by code_simp
  have "secondLeg transit_via_hyd \<noteq> leg_hyd_blr_early" by code_simp
  with ex have notin: "leg_hyd_blr_early
        \<notin> secondLeg ` set (snd (getRoutes 19800000 scenario_flights ''DEL'' ''BLR'' 1736899200000))"
    by auto
  have facts: "leg_hyd_blr_early \<in> set scenario_flights"
    "f_origin leg_hyd_blr_early = f_destination leg_del_hyd"
    "f_destination leg_hyd_blr_early = ''BLR''"
    "departureDateTime leg_hyd_blr_early < arrivalDateTime leg_del_hyd"
    by (simp_all add: scenario_flights_def leg_hyd_blr_early_def leg_del_hyd_def)
  from general localDayStart_bounds ex notin facts show ?thesis by blast
qed

theorem second_leg_departs_within_window_witness:
  "transit_via_hyd \<in> set (snd (getRoutes 19800000 scenario_flights ''del'' ''blr'' 1736899200000))
   \<and> arrivalDateTime leg_del_hyd \<le> departureDateTime leg_hyd_blr
   \<and> departureDateTime leg_hyd_blr \<le> 1737052199999"
proof -
  have m: "transit_via_hyd
             \<in> set (snd (getRoutes 19800000 scenario_flights ''del'' ''blr'' 1736899200000))"
    by code_simp
  have e: "localDayStart 19800000 (arrivalDateTime leg_del_hyd) + 2 * 86400000 - 1
             = 1737052199999"
    by code_simp
  have f: "firstLeg transit_via_hyd = leg_del_hyd" "secondLeg transit_via_hyd = leg_hyd_blr"
    by (simp_all add: transit_via_hyd_def)
  from second_leg_departs_within_window
         [of transit_via_hyd 19800000 scenario_flights "''del''" "''blr''" 1736899200000] m
  have "arrivalDateTime (firstLeg transit_via_hyd) \<le> departureDateTime (secondLeg transit_via_hyd)
        \<and> departureDateTime (secondLeg transit_via_hyd)
          \<le> localDayStart 19800000 (arrivalDateTime (firstLeg transit_via_hyd)) + 2 * 86400000 - 1"
    by blast
  with m e f show ?thesis by simp
qed


text \<open>
  C9. No transit route of \<open>getRoutes\<close> has a first leg that lands at the destination of the
  query (the code as the search uses it, upper-cased and trimmed; the code as submitted
  too, for a flight whose own code is in that form, as the Flight schema stores it), and no
  first leg is a flight of the direct list. A flight from the origin to the destination
  that departs on the day of the query is in the direct list and is the first leg of no
  transit route.
\<close>

theorem transit_first_leg_is_not_direct:
  "(r \<in> set (snd (getRoutes tz flights orig dest departureDate)) \<longrightarrow>
      f_destination (firstLeg r) \<noteq> trim (toUpperCase dest) \<and>
      firstLeg r \<notin> d_flight ` set (fst (getRoutes tz flights orig dest departureDate)) \<and>
      (trim (toUpperCase (f_destination (firstLeg r))) = f_destination (firstLeg r) \<longrightarrow>
         f_destination (firstLeg r) \<noteq> dest))
   \<and> (f \<in> set flights \<and> f_origin f = trim (toUpperCase orig) \<and>
        f_destination f = trim (toUpperCase dest) \<and>
        setHours tz departureDate 0 0 0 0 \<le> departureDateTime f \<and>
        departureDateTime f \<le> setHours tz departureDate 23 59 59 999 \<longrightarrow>
          f \<in> d_flight ` set (fst (getRoutes tz flights orig dest departureDate)) \<and>
          f \<notin> firstLeg ` set (snd (getRoutes tz flights orig dest departureDate)))"
proof -
  let ?d = "trim (toUpperCase dest)"
  have first: "f_destination (firstLeg r) \<noteq> ?d"
    if "r \<in> set (snd (getRoutes tz flights orig dest departureDate))" for r
  proof -
    from that obtain x where "f_destination x \<noteq> ?d"
      and "r \<in> set (routesVia tz flights ?d x)"
      by (auto simp: getRoutes_def Let_def getTransitRoutes_mem)
    then show ?thesis by (auto simp: routesVia_mem)
  qed
  have direct: "f_destination x = ?d"
    if "x \<in> d_flight ` set (fst (getRoutes tz flights orig dest departureDate))" for x
    using that by (simp add: getRoutes_def Let_def getDirectFlights_flights)
  have indirect: "f \<in> d_flight ` set (fst (getRoutes tz flights orig dest departureDate))"
    if "f \<in> set flights \<and> f_origin f = trim (toUpperCase orig) \<and>
        f_destination f = trim (toUpperCase dest) \<and>
        setHours tz departureDate 0 0 0 0 \<le> departureDateTime f \<and>
        departureDateTime f \<le> setHours tz departureDate 23 59 59 999"
    using that by (simp add: getRoutes_def Let_def getDirectFlights_flights)
  show ?thesis
  proof (intro conjI impI)
    assume r: "r \<in> set (snd (getRoutes tz flights orig dest departureDate))"
    from first [OF r] show "f_destination (firstLeg r) \<noteq> ?d" .
    from first [OF r] direct [of "firstLeg r"]
    show "firstLeg r \<notin> d_flight ` set (fst (getRoutes tz flights orig dest departureDate))"
      by blast
    assume "trim (toUpperCase (f_destination (firstLeg r))) = f_destination (firstLeg r)"
    with first [OF r] show "f_destination (firstLeg r) \<noteq> dest" by metis
  next
    assume f: "f \<in> set flights \<and> f_origin f = trim (toUpperCase orig) \<and>
        f_destination f = trim (toUpperCase dest) \<and>
        setHours tz departureDate 0 0 0 0 \<le> departureDateTime f \<and>
        departureDateTime f \<le> setHours tz departureDate 23 59 59 999"
    from indirect [OF f]
    show "f \<in> d_flight ` set (fst (getRoutes tz flights orig dest departureDate))" .
    show "f \<notin> firstLeg ` set (snd (getRoutes tz flights orig dest departureDate))"
    proof
      assume "f \<in> firstLeg ` set (snd (getRoutes tz flights orig dest departureDate))"
      then obtain r' where "r' \<in> set (snd (getRoutes tz flights orig dest departureDate))"
        and "f = firstLeg r'" by blast
      with first [of r'] f show False by simp
    qed
  qed
qed

theorem transit_first_leg_is_not_direct_witness:
  "transit_via_hyd
     \<in> set (snd (getRoutes 19800000 [leg_del_blr, leg_del_hyd, leg_hyd_blr] '' del'' ''blr''
                  1736899200000))
   \<and> f_destination leg_del_hyd \<noteq> ''BLR''
   \<and> leg_del_blr \<in> set [leg_del_blr, leg_del_hyd, leg_hyd_blr]
   \<and> f_destination leg_del_blr = ''BLR''
   \<and> leg_del_blr
       \<in> d_flight ` set (fst (getRoutes 19800000 [leg_del_blr, leg_del_hyd, leg_hyd_blr]
                                 '' del'' ''blr'' 1736899200000))
   \<and> leg_del_blr
       \<notin> firstLeg ` set (snd (getRoutes 19800000 [leg_del_blr, leg_del_hyd, leg_hyd_blr]
                                  '' del'' ''blr'' 1736899200000))"
proof -
  let ?fl = "[leg_del_blr, leg_del_hyd, leg_hyd_blr]"
  have m: "transit_via_hyd \<in> set (snd (getRoutes 19800000 ?fl '' del'' ''blr'' 1736899200000))"
    by code_simp
  have n: "trim (toUpperCase ''blr'') = ''BLR''" "trim (toUpperCase '' del'') = ''DEL''"
    by code_simp+
  have fl: "firstLeg transit_via_hyd = leg_del_hyd" by (simp add: transit_via_hyd_def)
  have h: "leg_del_blr \<in> set ?fl" "f_origin leg_del_blr = ''DEL''"
    "f_destination leg_del_blr = ''BLR''"
    "setHours 19800000 1736899200000 0 0 0 0 \<le> departureDateTime leg_del_blr"
    "departureDateTime leg_del_blr \<le> setHours 19800000 1736899200000 23 59 59 999"
    by code_simp+
  from transit_first_leg_is_not_direct
         [of transit_via_hyd 19800000 ?fl "'' del''" "''blr''" 1736899200000 leg_del_blr]
  have "f_destination (firstLeg transit_via_hyd) \<noteq> trim (toUpperCase ''blr'')"
    and "leg_del_blr
       \<in> d_flight ` set (fst (getRoutes 19800000 ?fl '' del'' ''blr'' 1736899200000))
     \<and> leg_del_blr
       \<notin> firstLeg ` set (snd (getRoutes 19800000 ?fl '' del'' ''blr'' 1736899200000))"
    using m h unfolding n by blast+
  with m h(1,3) show ?thesis unfolding n fl by blast
qed

section \<open>Reference ids\<close>

lemma isDigit_digitChar: "n < 10 \<Longrightarrow> isDigit (digitChar n)"
  by (simp add: isDigit_def digitChar_def)

lemma digitVal_digitChar: "n < 10 \<Longrightarrow> digitVal (digitChar n) = n"
  by (simp add: digitVal_def digitChar_def)

lemma decimal_digits: "decimal n \<noteq> [] \<and> list_all isDigit (decimal n)"
proof (induction n rule: decimal.induct)
  case (1 n)
  show ?case
  proof (cases "n < 10")
    case True
    then show ?thesis by (simp add: decimal.simps [of n] isDigit_digitChar)
  next
    case False
    with 1 show ?thesis by (simp add: decimal.simps [of n] isDigit_digitChar)
  qed
qed

lemma value_decimal: "fold (\<lambda>c a. a * 10 + digitVal c) (decimal n) 0 = n"
proof (induction n rule: decimal.induct)
  case (1 n)
  show ?case
  proof (cases "n < 10")
    case True
    then show ?thesis by (simp add: decimal.simps [of n] digitVal_digitChar)
  next
    case False
    with 1 have "fold (\<lambda>c a. a * 10 + digitVal c) (decimal (n div 10)) 0 = n div 10" by simp
    with False show ?thesis
      by (simp add: decimal.simps [of n] digitVal_digitChar)
  qed
qed

lemma value_zeros:
  "fold (\<lambda>c a. a * 10 + digitVal c) (replicate k (CHR ''0'') @ ds) 0
     = fold (\<lambda>c a. a * 10 + digitVal c) ds 0"
  by (induction k) (simp_all add: digitVal_def)

lemma isDigit_digitVal: "isDigit c \<Longrightarrow> digitVal c = of_char c - 48"
  by (simp add: isDigit_def digitVal_def Let_def)

lemma decimalValue_fold:
  "list_all isDigit ds \<Longrightarrow> decimalValue ds = fold (\<lambda>c a. a * 10 + digitVal c) ds 0"
proof -
  assume d: "list_all isDigit ds"
  have "list_all isDigit ds \<Longrightarrow>
        foldl (\<lambda>a c. 10 * a + (of_char c - 48)) k ds = fold (\<lambda>c a. a * 10 + digitVal c) ds k" for k
    by (induction ds arbitrary: k) (simp_all add: isDigit_digitVal mult.commute)
  with d show ?thesis by (simp add: decimalValue_def)
qed


lemma isDigit_not_special:
  "isDigit c \<Longrightarrow> c \<noteq> CHR ''-'' \<and> c \<noteq> CHR ''+'' \<and> c \<noteq> CHR ''x'' \<and> c \<noteq> CHR ''X'' \<and> \<not> isSpace c"
  by (auto simp: isDigit_def isSpace_def Let_def)

lemma zeroPadded_digits: "zeroPadded w n \<noteq> [] \<and> list_all isDigit (zeroPadded w n)"
  using decimal_digits [of n] by (auto simp: zeroPadded_def list_all_iff isDigit_def Let_def)

lemma padStart_decimal: "padStart w (CHR ''0'') (decimal n) = zeroPadded w n"
  by (simp add: padStart_def zeroPadded_def)

lemma filter_digits: "list_all isDigit ds \<Longrightarrow> filter (\<lambda>c. c \<noteq> CHR ''-'') ds = ds"
  by (induction ds) (auto dest: isDigit_not_special)

lemma refIdPrefix_spec:
  assumes "utcDate today = (y, m, d)" "0 \<le> y" "y \<le> 9999"
  shows "refIdPrefix today = specPrefix today"
  using assms zeroPadded_digits
  by (simp add: refIdPrefix_def specPrefix_def isoDate_def padStart_decimal filter_digits)

lemma split_no_separator: "c \<notin> set xs \<Longrightarrow> split c xs = [xs]"
  by (induction xs) auto

lemma split_separator: "c \<notin> set xs \<Longrightarrow> split c (xs @ c # ys) = xs # split c ys"
  by (induction xs) auto

lemma digits_no_dash: "list_all isDigit ds \<Longrightarrow> CHR ''-'' \<notin> set ds"
  by (auto simp: list_all_iff dest: isDigit_not_special)

lemma specPrefix_shape:
  "\<exists>ds. specPrefix today = ''BOOK'' @ CHR ''-'' # ds @ [CHR ''-''] \<and> list_all isDigit ds"
proof -
  obtain y m d where u: "utcDate today = (y, m, d)" by (cases "utcDate today") auto
  let ?ds = "zeroPadded 4 (nat y) @ zeroPadded 2 m @ zeroPadded 2 d"
  have "specPrefix today = ''BOOK'' @ CHR ''-'' # ?ds @ [CHR ''-'']"
    by (simp add: specPrefix_def u)
  moreover have "list_all isDigit ?ds" using zeroPadded_digits by simp
  ultimately show ?thesis by blast
qed

lemma split_ref_id:
  assumes "list_all isDigit x"
  shows "drop 2 (split (CHR ''-'') (specPrefix today @ x)) = [x]"
proof -
  from specPrefix_shape obtain ds where
    p: "specPrefix today = ''BOOK'' @ CHR ''-'' # ds @ [CHR ''-'']" and d: "list_all isDigit ds"
    by blast
  have "specPrefix today @ x = ''BOOK'' @ CHR ''-'' # (ds @ CHR ''-'' # x)"
    by (simp add: p)
  moreover have "CHR ''-'' \<notin> set ''BOOK''" by simp
  then have "split (CHR ''-'') (''BOOK'' @ CHR ''-'' # (ds @ CHR ''-'' # x))
      = ''BOOK'' # split (CHR ''-'') (ds @ CHR ''-'' # x)"
    by (rule split_separator)
  ultimately have "split (CHR ''-'') (specPrefix today @ x)
      = ''BOOK'' # split (CHR ''-'') (ds @ CHR ''-'' # x)"
    by (simp only:)
  also have "split (CHR ''-'') (ds @ CHR ''-'' # x) = ds # split (CHR ''-'') x"
    by (rule split_separator [OF digits_no_dash [OF d]])
  also have "split (CHR ''-'') x = [x]"
    by (rule split_no_separator [OF digits_no_dash [OF assms]])
  finally show ?thesis by simp
qed

lemma parseInt_digits:
  assumes "wellFormedSuffix x"
  shows "parseInt x = Some (int (decimalValue x))"
proof -
  from assms obtain c cs where x: "x = c # cs" and c: "isDigit c" and cs: "list_all isDigit cs"
    by (cases x) (auto simp: wellFormedSuffix_def)
  from c have n: "c \<noteq> CHR ''-''" "c \<noteq> CHR ''+''" "\<not> isSpace c"
    using isDigit_not_special by blast+
  have hex: "(case x of a # b # _ \<Rightarrow> a = CHR ''0'' \<and> (b = CHR ''x'' \<or> b = CHR ''X'') | _ \<Rightarrow> False)
               = False"
  proof (cases cs)
    case Nil
    then show ?thesis by (simp add: x)
  next
    case (Cons b bs)
    with cs have "isDigit b" by simp
    then have "b \<noteq> CHR ''x''" "b \<noteq> CHR ''X''" using isDigit_not_special by blast+
    with Cons show ?thesis by (simp add: x)
  qed
  have tw: "takeWhile isDigit x = x"
    using c cs by (simp add: x list_all_iff)
  have d: "list_all isDigit x" using c cs by (simp add: x)
  have "parseInt x = Some (int (fold (\<lambda>c a. a * 10 + digitVal c) x 0))"
    unfolding parseInt_def Let_def using n hex tw by (simp add: x)
  then show ?thesis by (simp add: decimalValue_fold [OF d])
qed


lemma decimalValue_zeroPadded: "decimalValue (zeroPadded w n) = n"
proof -
  have "list_all isDigit (zeroPadded w n)" using zeroPadded_digits by blast
  then have "decimalValue (zeroPadded w n)
      = fold (\<lambda>c a. a * 10 + digitVal c) (zeroPadded w n) 0"
    by (rule decimalValue_fold)
  also have "\<dots> = fold (\<lambda>c a. a * 10 + digitVal c) (decimal n) 0"
    unfolding zeroPadded_def by (rule value_zeros)
  also have "\<dots> = n" by (rule value_decimal)
  finally show ?thesis .
qed

lemma lastRefId_Max:
  "lastRefId s prefix =
     (if filter (startsWith prefix) (map ref_id s) = [] then None
      else Some (Max (set (filter (startsWith prefix) (map ref_id s)))))"
proof (cases "filter (startsWith prefix) (map ref_id s)")
  case Nil
  then show ?thesis by (simp add: lastRefId_def)
next
  case (Cons r rs)
  have "fold max rs r = Max (set (r # rs))" by (rule Max.set_eq_fold [symmetric])
  with Cons show ?thesis by (simp add: lastRefId_def)
qed

lemma nextSequence_wellFormed:
  assumes "startsWith (specPrefix today) r"
    and "wellFormedSuffix (drop (length (specPrefix today)) r)"
  shows "nextSequence (Some r) = int (decimalValue (drop (length (specPrefix today)) r)) + 1"
proof -
  let ?x = "drop (length (specPrefix today)) r"
  from assms(1) have r: "r = specPrefix today @ ?x"
    by (metis append_take_drop_id startsWith_def)
  from assms(2) have d: "list_all isDigit ?x" and ne: "?x \<noteq> []"
    by (simp_all add: wellFormedSuffix_def)
  from ne have "r \<noteq> []" by auto
  moreover have "drop 2 (split (CHR ''-'') r) = [?x]"
    using split_ref_id [OF d, of today] r by simp
  ultimately show ?thesis
    by (simp add: nextSequence_def parseInt_digits [OF assms(2)])
qed

text \<open>
  C5. For a creation date in the years 0 to 9999 and a collection whose reference ids of
  that day are the day's prefix followed by digits, the hook's reference id is the one of
  the specification: the prefix \<open>BOOK-YYYYMMDD-\<close> of the UTC date, then the number that
  follows the prefix in the greatest such reference id, plus one, or one when there is
  none, in decimal with zeros in front up to six digits (\<open>decimalValue\<close> reads such a
  number back).
\<close>

theorem ref_id_allocation:
  assumes "utcDate today = (y, m, d)" and "0 \<le> y" and "y \<le> 9999"
    and "list_all (\<lambda>r. startsWith (specPrefix today) r \<longrightarrow>
                        wellFormedSuffix (drop (length (specPrefix today)) r)) (map ref_id s)"
  shows "refIdPrefix today
           = ''BOOK-'' @ zeroPadded 4 (nat y) @ zeroPadded 2 m @ zeroPadded 2 d @ ''-''
         \<and> generateRefId s today = allocate_spec s today
         \<and> (filter (startsWith (refIdPrefix today)) (map ref_id s) = [] \<longrightarrow>
              generateRefId s today = refIdPrefix today @ ''000001'')
         \<and> (\<forall>n. filter (startsWith (refIdPrefix today)) (map ref_id s) \<noteq> [] \<and>
                 Max (set (filter (startsWith (refIdPrefix today)) (map ref_id s)))
                   = refIdPrefix today @ zeroPadded 6 n \<longrightarrow>
                 generateRefId s today = refIdPrefix today @ zeroPadded 6 (n + 1))
         \<and> (\<forall>n. decimalValue (zeroPadded 6 n) = n)"
proof -
  let ?P = "specPrefix today"
  let ?ex = "filter (startsWith ?P) (map ref_id s)"
  have p: "refIdPrefix today = ?P"
    using assms(1-3) by (rule refIdPrefix_spec)
  have p': "?P = ''BOOK-'' @ zeroPadded 4 (nat y) @ zeroPadded 2 m @ zeroPadded 2 d @ ''-''"
    by (simp add: specPrefix_def assms(1))
  have one: "zeroPadded 6 1 = ''000001''" by code_simp
  have seq: "nextSequence (lastRefId s ?P) =
      (if ?ex = [] then 1 else int (decimalValue (drop (length ?P) (Max (set ?ex))) + 1))"
  proof (cases "?ex = []")
    case True
    then show ?thesis by (simp add: lastRefId_Max nextSequence_def)
  next
    case False
    then have "set ?ex \<noteq> {}" by (simp only: set_empty not_False_eq_True)
    then have "Max (set ?ex) \<in> set ?ex" by (intro Max_in finite_set)
    then have st: "startsWith ?P (Max (set ?ex))" and "Max (set ?ex) \<in> set (map ref_id s)"
      by simp_all
    with assms(4) have "wellFormedSuffix (drop (length ?P) (Max (set ?ex)))"
      unfolding list_all_iff by blast
    from nextSequence_wellFormed [OF st this] False show ?thesis
      by (simp add: lastRefId_Max)
  qed
  have nat1: "nat (1 + int k) = Suc k" for k by linarith
  have gen: "generateRefId s today =
      ?P @ zeroPadded 6 (if ?ex = [] then 1 else decimalValue (drop (length ?P) (Max (set ?ex))) + 1)"
    unfolding generateRefId_def Let_def p seq
    by (simp add: toString_def padStart_decimal nat1)
  then have spec: "generateRefId s today = allocate_spec s today"
    by (simp add: allocate_spec_def Let_def)
  have first: "generateRefId s today = ?P @ ''000001''" if "?ex = []"
    using gen that one by simp
  have later: "generateRefId s today = ?P @ zeroPadded 6 (n + 1)"
    if "?ex \<noteq> []" "Max (set ?ex) = ?P @ zeroPadded 6 n" for n
    using gen that by (simp add: decimalValue_zeroPadded)
  from p p' spec first later decimalValue_zeroPadded show ?thesis
    by (simp only: p) blast
qed


theorem ref_id_allocation_witness:
  "utcDate 1735723800000 = (2025, 1, 1)
   \<and> refIdPrefix 1735723800000 = ''BOOK-20250101-''
   \<and> generateRefId two_bookings 1735723800000 = ''BOOK-20250101-000010''
   \<and> allocate_spec two_bookings 1735723800000 = ''BOOK-20250101-000010''
   \<and> generateRefId [] 1735723800000 = ''BOOK-20250101-000001''"
proof -
  let ?t = "1735723800000 :: int"
  have d: "utcDate ?t = (2025, 1, 1)" by code_simp
  have y: "(0 :: int) \<le> 2025" "(2025 :: int) \<le> 9999" by simp_all
  have wf: "list_all (\<lambda>r. startsWith (specPrefix ?t) r \<longrightarrow>
               wellFormedSuffix (drop (length (specPrefix ?t)) r)) (map ref_id two_bookings)"
    by code_simp
  have wf0: "list_all (\<lambda>r. startsWith (specPrefix ?t) r \<longrightarrow>
               wellFormedSuffix (drop (length (specPrefix ?t)) r)) (map ref_id [])"
    by simp
  have g: "generateRefId two_bookings ?t = ''BOOK-20250101-000010''" by code_simp
  have p: "refIdPrefix ?t = ''BOOK-20250101-''" by code_simp
  from ref_id_allocation [OF d y wf]
  have "generateRefId two_bookings ?t = allocate_spec two_bookings ?t" by blast
  with g have a: "allocate_spec two_bookings ?t = ''BOOK-20250101-000010''" by simp
  have "filter (startsWith (refIdPrefix ?t)) (map ref_id []) = []" by simp
  with ref_id_allocation [OF d y wf0]
  have "generateRefId [] ?t = refIdPrefix ?t @ ''000001''" by blast
  with p have e: "generateRefId [] ?t = ''BOOK-20250101-000001''" by simp
  from d p g a e show ?thesis by blast
qed

section \<open>The flight check of createBooking\<close>

text \<open>
  In a catalogue with distinct ids the check fails exactly when the ids, all of them
  well formed, are not pairwise distinct ids of flights of the catalogue.
\<close>

lemma length_filter_ids:
  assumes "distinct (map f_id flights)"
  shows "length (filter (\<lambda>f. f_id f \<in> S) flights) = card (S \<inter> f_id ` set flights)"
proof -
  from assms have d: "distinct flights" and inj: "inj_on f_id (set flights)"
    by (simp_all add: distinct_map)
  have "length (filter (\<lambda>f. f_id f \<in> S) flights) = card {f \<in> set flights. f_id f \<in> S}"
    using d by (simp add: distinct_length_filter Int_def conj_commute)
  also have "\<dots> = card (f_id ` {f \<in> set flights. f_id f \<in> S})"
    by (rule card_image [symmetric]) (rule inj_on_subset [OF inj], blast)
  also have "f_id ` {f \<in> set flights. f_id f \<in> S} = S \<inter> f_id ` set flights"
    by blast
  finally show ?thesis .
qed

lemma card_inter_eq_length:
  "card (set ids \<inter> F) = length ids \<longleftrightarrow> distinct ids \<and> set ids \<subseteq> F"
proof
  assume e: "card (set ids \<inter> F) = length ids"
  have "card (set ids \<inter> F) \<le> card (set ids)" by (simp add: card_mono)
  moreover have "card (set ids) \<le> length ids" by (rule card_length)
  ultimately have c: "card (set ids) = length ids" and c': "card (set ids \<inter> F) = card (set ids)"
    using e by simp_all
  from c have "distinct ids" by (rule card_distinct)
  moreover from c' have "set ids \<inter> F = set ids"
    by (intro card_subset_eq) simp_all
  ultimately show "distinct ids \<and> set ids \<subseteq> F" by blast
next
  assume "distinct ids \<and> set ids \<subseteq> F"
  then show "card (set ids \<inter> F) = length ids"
    by (simp add: distinct_card Int_absorb2)
qed

lemma validateFlightIds_fails_iff:
  assumes "distinct (map f_id flights)"
  shows "validateFlightIds flights ids_in = Inl InvalidFlightIds \<longleftrightarrow>
           ids_in \<noteq> [] \<and> list_all isValid ids_in \<and>
           \<not> (distinct (map (map toLowerChar) ids_in) \<and>
              set (map (map toLowerChar) ids_in) \<subseteq> f_id ` set flights)"
  using card_inter_eq_length [of "map (map toLowerChar) ids_in" "f_id ` set flights"]
  by (simp add: validateFlightIds_def those_ids_def length_filter_ids [OF assms])

text \<open>
  C6. With the flight DEL to HYD in the catalogue and its id submitted twice, every entry
  of \<open>flightIds\<close> resolves to an existing flight, and \<open>createBooking\<close> still fails with
  "One or more flight IDs are invalid" and stores nothing: the query returns the flight
  once, and the check compares the number of flights found with the number of ids
  submitted. With the id submitted once the booking is created.
\<close>

theorem createBooking_rejects_repeated_flight_id:
  "list_all (\<lambda>i. list_ex (\<lambda>f. f_id f = i) [leg_del_hyd])
      [''65a1b2c3d4e5f60718293b01'', ''65a1b2c3d4e5f60718293b01'']
   \<and> createBooking [leg_del_hyd] [] ''DEL'' ''HYD'' ''10'' ''500''
        [''65a1b2c3d4e5f60718293b01'', ''65a1b2c3d4e5f60718293b01'']
        ''65a1b2c3d4e5f60718293a4c'' 1735689600000 1735689600000
       = (Inl InvalidFlightIds, [])
   \<and> kind InvalidFlightIds = InvalidFlightReference
   \<and> fst (createBooking [leg_del_hyd] [] ''DEL'' ''HYD'' ''10'' ''500''
        [''65a1b2c3d4e5f60718293b01'']
        ''65a1b2c3d4e5f60718293a4c'' 1735689600000 1735689600000)
       = Inr (booked_booking\<lparr>destination := ''HYD'',
                               flightIds := [''65a1b2c3d4e5f60718293b01'']\<rparr>)"
  by code_simp

section \<open>Create, then history\<close>

lemma trim_id:
  assumes "s \<noteq> []" "\<not> isSpace (hd s)" "\<not> isSpace (last s)"
  shows "trim s = s"
proof -
  have "dropWhile isSpace s = s" using assms(2) by (simp add: dropWhile_eq_self_iff)
  moreover have "dropWhile isSpace (rev s) = rev s"
    using assms(1,3) by (simp add: dropWhile_eq_self_iff hd_rev)
  ultimately show ?thesis by (simp add: trim_def)
qed

lemma toUpperChar_digit: "isDigit c \<Longrightarrow> toUpperChar c = c"
  by (simp add: isDigit_def toUpperChar_def Let_def)

lemma last_decimal_digit: "isDigit (last (decimal n))"
  using decimal_digits [of n] by (simp add: list_all_iff)

lemma generateRefId_shape:
  "\<exists>rest. generateRefId s today = ''BOOK-'' @ rest \<and> rest \<noteq> [] \<and> isDigit (last rest)"
proof -
  let ?q = "toString (nextSequence (lastRefId s (refIdPrefix today)))"
  have q: "?q \<noteq> [] \<and> isDigit (last ?q)"
    using decimal_digits last_decimal_digit by (simp add: toString_def)
  then have "padStart 6 (CHR ''0'') ?q \<noteq> [] \<and> isDigit (last (padStart 6 (CHR ''0'') ?q))"
    by (simp add: padStart_def)
  then show ?thesis
    by (simp add: generateRefId_def Let_def refIdPrefix_def)
qed

lemma stored_ref_id_lookup:
  assumes "r = toUpperCase (generateRefId s today)"
  shows "\<not> isValid r \<and> trim (toUpperCase r) = r"
proof -
  from generateRefId_shape obtain rest where
    g: "generateRefId s today = ''BOOK-'' @ rest" and ne: "rest \<noteq> []"
    and d: "isDigit (last rest)" by blast
  have up: "toUpperCase ''BOOK-'' = ''BOOK-''"
    by (simp add: toUpperCase_def toUpperChar_def)
  have r: "r = ''BOOK-'' @ toUpperCase rest"
    unfolding assms g toUpperCase_append up ..
  have "\<not> isHexDigit (CHR ''O'')" by (simp add: isHexDigit_def)
  then have nv: "\<not> isValid r" by (simp add: r isValid_def)
  have "last r = toUpperChar (last rest)"
    using ne by (simp add: r toUpperCase_def last_map)
  with d have "isDigit (last r)" by (simp add: toUpperChar_digit)
  then have "\<not> isSpace (last r)" using isDigit_not_special by blast
  moreover have "\<not> isSpace (hd r)" by (simp add: r isSpace_def)
  moreover have "r \<noteq> []" by (simp add: r)
  ultimately have "trim r = r" by (intro trim_id)
  moreover have "toUpperCase r = r" by (simp add: assms)
  ultimately show ?thesis using nv by simp
qed

lemma normalised_code: "schemaCode (trim (toUpperCase x)) = trim (toUpperCase x)"
  by (simp add: schemaCode_def trim_toUpperCase)

lemma find_append_new:
  "\<not> list_ex P s \<Longrightarrow> P b \<Longrightarrow> find P (s @ [b]) = Some b"
  by (induction s) auto


text \<open>\<open>parseInt\<close> reads back the text of an integer.\<close>

lemma decimalValue_decimal: "decimalValue (decimal n) = n"
  using decimalValue_zeroPadded [of 0 n] by (simp add: zeroPadded_def)

lemma parseInt_minus_digits:
  assumes "wellFormedSuffix x"
  shows "parseInt (CHR ''-'' # x) = Some (- int (decimalValue x))"
proof -
  from assms obtain c cs where x: "x = c # cs" and c: "isDigit c" and cs: "list_all isDigit cs"
    by (cases x) (auto simp: wellFormedSuffix_def)
  have sp: "\<not> isSpace (CHR ''-'')" by (simp add: isSpace_def)
  have hex: "(case x of a # b # _ \<Rightarrow> a = CHR ''0'' \<and> (b = CHR ''x'' \<or> b = CHR ''X'') | _ \<Rightarrow> False)
               = False"
  proof (cases cs)
    case Nil
    then show ?thesis by (simp add: x)
  next
    case (Cons b bs)
    with cs have "isDigit b" by simp
    then have "b \<noteq> CHR ''x''" "b \<noteq> CHR ''X''" using isDigit_not_special by blast+
    with Cons show ?thesis by (simp add: x)
  qed
  have tw: "takeWhile isDigit x = x"
    using c cs by (simp add: x list_all_iff)
  have d: "list_all isDigit x" using c cs by (simp add: x)
  have "parseInt (CHR ''-'' # x) = Some (- int (fold (\<lambda>c a. a * 10 + digitVal c) x 0))"
    unfolding parseInt_def Let_def using sp hex tw by (simp add: x)
  then show ?thesis by (simp add: decimalValue_fold [OF d])
qed

lemma parseInt_toString: "parseInt (toString n) = Some n"
proof (cases "n < 0")
  case True
  have "wellFormedSuffix (decimal (nat (- n)))"
    using decimal_digits by (simp add: wellFormedSuffix_def)
  from parseInt_minus_digits [OF this] True show ?thesis
    by (simp add: toString_def decimalValue_decimal)
next
  case False
  have "wellFormedSuffix (decimal (nat n))"
    using decimal_digits by (simp add: wellFormedSuffix_def)
  from parseInt_digits [OF this] False show ?thesis
    by (simp add: toString_def decimalValue_decimal)
qed

text \<open>
  C8, as the claim states it, fails: a booking submitted with origin \<open>del\<close> and destination
  \<open>bom\<close> is created, and the history of its reference id returns origin \<open>DEL\<close> and
  destination \<open>BOM\<close>.
\<close>

theorem history_after_create_counterexample:
  "createBooking [] [] ''del'' ''bom'' ''10'' ''500'' [] ''65a1b2c3d4e5f60718293a4c''
       1735689600000 1735689600000 = (Inr booked_booking, [booked_booking])
   \<and> getBookingHistory [booked_booking] (ref_id booked_booking) = Inr booked_booking
   \<and> origin booked_booking \<noteq> ''del''
   \<and> destination booked_booking \<noteq> ''bom''"
  by code_simp

text \<open>
  C8, amended. After a successful create, the history of the returned reference id, read
  from the store that create leaves, is the booking that create returned. Its origin and
  destination are the submitted codes upper-cased and trimmed (the submitted codes
  themselves when they are in that form). Its pieces and weight are what \<open>parseInt\<close> reads
  in the submitted values, for readings below \<open>2 ^ 53\<close> in magnitude, where the integers
  of the model are the numbers of JavaScript: the submitted values themselves when they
  are integers in that range, whose text is their decimal digits. Its status is BOOKED
  and its timeline has exactly one entry.
\<close>

theorem history_after_create:
  assumes "createBooking flights s orig dest p w fs new_id today now = (Inr b, s')"
  shows "getBookingHistory s' (ref_id b) = Inr b
         \<and> origin b = trim (toUpperCase orig) \<and> destination b = trim (toUpperCase dest)
         \<and> (trim (toUpperCase orig) = orig \<longrightarrow> origin b = orig)
         \<and> (trim (toUpperCase dest) = dest \<longrightarrow> destination b = dest)
         \<and> (\<forall>n. parseInt p = Some n \<and> \<bar>n\<bar> < 2 ^ 53 \<longrightarrow> pieces b = n)
         \<and> (\<forall>n. parseInt w = Some n \<and> \<bar>n\<bar> < 2 ^ 53 \<longrightarrow> weight_kg b = n)
         \<and> (\<forall>n. \<bar>n\<bar> < 2 ^ 53 \<and> p = toString n \<longrightarrow> pieces b = n)
         \<and> (\<forall>n. \<bar>n\<bar> < 2 ^ 53 \<and> w = toString n \<longrightarrow> weight_kg b = n)
         \<and> status b = BOOKED \<and> length (timeline b) = 1"
proof -
  from assms obtain ids pc wt where
    pp: "parseInt p = Some pc" and pw: "parseInt w = Some wt" and
    sv: "save_new s
          \<lparr>b_id = new_id, ref_id = [],
           origin = schemaCode (trim (toUpperCase orig)),
           destination = schemaCode (trim (toUpperCase dest)),
           pieces = pc, weight_kg = wt, status = BOOKED,
           flightIds = ids, timeline = []\<rparr> today now = (Inr b, s')"
    by (auto simp: createBooking_def split: sum.splits option.splits)
  from save_new_cases [OF sv] have s': "s' = s @ [b]"
    and f: "origin b = trim (toUpperCase orig)" "destination b = trim (toUpperCase dest)"
       "status b = BOOKED"
    and pcs: "pieces b = pc" "weight_kg b = wt"
    and tl: "timeline b = initialTimeline BOOKED now"
    and fresh: "\<not> list_ex (\<lambda>x. b_id x = b_id b \<or> ref_id x = ref_id b) s"
    by (auto simp: normalised_code)
  from sv have rid: "ref_id b = toUpperCase (generateRefId s today)"
    by (auto simp: save_new_def Let_def split: if_splits)
  from stored_ref_id_lookup [OF rid]
  have nv: "\<not> isValid (ref_id b)" and norm: "trim (toUpperCase (ref_id b)) = ref_id b"
    by blast+
  from fresh have "\<not> list_ex (\<lambda>x. ref_id x = ref_id b) s"
    by (auto simp: list_ex_iff)
  then have "find (\<lambda>x. ref_id x = ref_id b) (s @ [b]) = Some b"
    by (rule find_append_new) simp
  with nv norm have "findBookingByIdentifier s' (ref_id b) = Some b"
    by (simp add: findBookingByIdentifier_def tryById_def findOneByRefId_def s')
  with tl have h: "getBookingHistory s' (ref_id b) = Inr b"
    by (simp add: getBookingHistory_def initialTimeline_def)
  have parsed: "parseInt p = Some (pieces b)" "parseInt w = Some (weight_kg b)"
    using pp pw pcs by simp_all
  have same: "pieces b = n" if "p = toString n" for n
    using parsed(1) that by (simp add: parseInt_toString)
  have same': "weight_kg b = n" if "w = toString n" for n
    using parsed(2) that by (simp add: parseInt_toString)
  from h f tl parsed same same' show ?thesis by (simp add: initialTimeline_def)
qed

theorem history_after_create_witness:
  "createBooking [] [] ''del'' ''bom '' ''10'' ''500'' [] ''65a1b2c3d4e5f60718293a4c''
       1735689600000 1735689600000 = (Inr booked_booking, [booked_booking])
   \<and> getBookingHistory [booked_booking] ''BOOK-20250101-000001'' = Inr booked_booking
   \<and> origin booked_booking = ''DEL'' \<and> destination booked_booking = ''BOM''
   \<and> toString 10 = ''10'' \<and> toString 500 = ''500''
   \<and> pieces booked_booking = 10 \<and> weight_kg booked_booking = 500
   \<and> status booked_booking = BOOKED \<and> length (timeline booked_booking) = 1
   \<and> createBooking [] [] ''DEL'' ''BOM'' ''1e+21'' ''10.5'' [] ''65a1b2c3d4e5f60718293a4c''
       1735689600000 1735689600000
       = (Inr (booked_booking\<lparr>pieces := 1, weight_kg := 10\<rparr>),
          [booked_booking\<lparr>pieces := 1, weight_kg := 10\<rparr>])
   \<and> parseInt ''1e+21'' = Some 1 \<and> parseInt ''10.5'' = Some 10"
proof -
  have c: "createBooking [] [] ''del'' ''bom '' ''10'' ''500'' [] ''65a1b2c3d4e5f60718293a4c''
       1735689600000 1735689600000 = (Inr booked_booking, [booked_booking])"
    by code_simp
  have n: "trim (toUpperCase ''del'') = ''DEL''" "trim (toUpperCase ''bom '') = ''BOM''"
    "ref_id booked_booking = ''BOOK-20250101-000001''"
    by code_simp+
  have t: "toString 10 = ''10''" "toString 500 = ''500''" by code_simp+
  have b: "\<bar>10 :: int\<bar> < 2 ^ 53" "\<bar>500 :: int\<bar> < 2 ^ 53" by simp_all
  from history_after_create [OF c] t b
  have v: "pieces booked_booking = 10" "weight_kg booked_booking = 500" by metis+
  have c2: "createBooking [] [] ''DEL'' ''BOM'' ''1e+21'' ''10.5'' []
       ''65a1b2c3d4e5f60718293a4c'' 1735689600000 1735689600000
       = (Inr (booked_booking\<lparr>pieces := 1, weight_kg := 10\<rparr>),
          [booked_booking\<lparr>pieces := 1, weight_kg := 10\<rparr>])"
    by code_simp
  have p2: "parseInt ''1e+21'' = Some 1" "parseInt ''10.5'' = Some 10" by code_simp+
  have b2: "\<bar>1 :: int\<bar> < 2 ^ 53" "\<bar>10 :: int\<bar> < 2 ^ 53" by simp_all
  from history_after_create [OF c2] p2 b2
  have v2: "pieces (booked_booking\<lparr>pieces := 1, weight_kg := 10\<rparr>) = 1"
    "weight_kg (booked_booking\<lparr>pieces := 1, weight_kg := 10\<rparr>) = 10" by metis+
  from history_after_create [OF c] c c2 t v p2 v2 show ?thesis
    unfolding n by simp
qed

section \<open>Timelines\<close>

lemma timeline_ok_mono: "timeline_ok t b \<Longrightarrow> t \<le> t' \<Longrightarrow> timeline_ok t' b"
  by (auto simp: timeline_ok_def list_all_iff)

lemma timeline_ok_push:
  assumes "timeline_ok t b" "t \<le> now"
  shows "timeline_ok now (set_and_push st now fid b)"
  using assms
  by (auto simp: timeline_ok_def set_and_push_def list_all_iff sorted_append)

lemma guarded_update_timelines:
  assumes "guarded_update v st now s r s'" "list_all (timeline_ok t) s" "t \<le> now"
  shows "list_all (timeline_ok now) s'"
proof -
  from assms(2,3) have all: "list_all (timeline_ok now) s"
    by (auto simp: list_all_iff intro: timeline_ok_mono)
  from assms(1) show ?thesis
    unfolding guarded_update_def
  proof (elim disjE conjE exE)
    assume "s' = s"
    with all show ?thesis by simp
  next
    fix k fid
    assume k: "k < length s" and s': "s' = s[k := set_and_push st now fid (s ! k)]"
    from k assms(2) have "timeline_ok t (s ! k)" by (simp add: list_all_length)
    then have "timeline_ok now (set_and_push st now fid (s ! k))"
      using assms(3) by (rule timeline_ok_push)
    with all k show ?thesis
      unfolding s' list_all_length by (auto simp: nth_list_update)
  qed
qed

lemma reachable_timelines: "reachable flights t s \<Longrightarrow> list_all (timeline_ok t) s"
proof (induction rule: reachable.induct)
  case (reach_empty t)
  show ?case by simp
next
  case (reach_create t s today now orig dest p w fs new_id r s')
  from reach_create.IH reach_create.hyps(2,3)
  have all: "list_all (timeline_ok now) s"
    by (auto simp: list_all_iff intro: timeline_ok_mono)
  from createBooking_cases [OF reach_create.hyps(4)] show ?case
  proof (elim disjE conjE exE)
    assume "s' = s"
    with all show ?thesis by simp
  next
    fix b
    assume b: "s' = s @ [b]" "timeline b = initialTimeline BOOKED now"
    then have "timeline_ok now b"
      by (simp add: timeline_ok_def initialTimeline_def)
    with all b show ?thesis by simp
  qed
next
  case (reach_depart t s now ident fl r s')
  from departBooking_update [OF reach_depart.hyps(3)] reach_depart.IH reach_depart.hyps(2)
  show ?case by (rule guarded_update_timelines)
next
  case (reach_arrive t s now ident fl r s')
  from arriveBooking_update [OF reach_arrive.hyps(3)] reach_arrive.IH reach_arrive.hyps(2)
  show ?case by (rule guarded_update_timelines)
next
  case (reach_cancel t s now ident r s')
  from cancelBooking_update [OF reach_cancel.hyps(3)] reach_cancel.IH reach_cancel.hyps(2)
  show ?case by (rule guarded_update_timelines)
next
  case (reach_depart_write t s now bk fl r s')
  from depart_write_update [OF reach_depart_write.hyps(3)] reach_depart_write.IH
    reach_depart_write.hyps(2)
  show ?case by (rule guarded_update_timelines)
next
  case (reach_arrive_write t s now bk fl r s')
  from arrive_write_update [OF reach_arrive_write.hyps(3)] reach_arrive_write.IH
    reach_arrive_write.hyps(2)
  show ?case by (rule guarded_update_timelines)
next
  case (reach_cancel_write t s now bk r s')
  from cancel_write_update [OF reach_cancel_write.hyps(3)] reach_cancel_write.IH
    reach_cancel_write.hyps(2)
  show ?case by (rule guarded_update_timelines)
qed

text \<open>Whatever the order of the steps and of their clock readings, a timeline keeps its start.\<close>

lemma timeline_started_push:
  "timeline_started b \<Longrightarrow> timeline_started (set_and_push st now fid b)"
  by (auto simp: timeline_started_def set_and_push_def)

lemma guarded_update_started:
  assumes "guarded_update v st now s r s'" "list_all timeline_started s"
  shows "list_all timeline_started s'"
  using assms(1) unfolding guarded_update_def
proof (elim disjE conjE exE)
  assume "s' = s"
  with assms(2) show ?thesis by simp
next
  fix k fid
  assume k: "k < length s" and s': "s' = s[k := set_and_push st now fid (s ! k)]"
  from k assms(2) have "timeline_started (s ! k)" by (simp add: list_all_length)
  then have "timeline_started (set_and_push st now fid (s ! k))"
    by (rule timeline_started_push)
  with assms(2) k show ?thesis
    unfolding s' list_all_length by (auto simp: nth_list_update)
qed

lemma lifecycle_step_started:
  assumes "lifecycle_step flights s s'" "list_all timeline_started s"
  shows "list_all timeline_started s'"
  using assms(1)
proof cases
  case (step_create orig dest p w fs new_id today now r)
  from createBooking_cases [OF this] show ?thesis
  proof (elim disjE conjE exE)
    assume "s' = s"
    with assms(2) show ?thesis by simp
  next
    fix b
    assume b: "s' = s @ [b]" "timeline b = initialTimeline BOOKED now"
    then have "timeline_started b"
      by (simp add: timeline_started_def initialTimeline_def)
    with assms(2) b show ?thesis by simp
  qed
next
  case (step_depart ident fl now r)
  from departBooking_update [OF this] assms(2) show ?thesis by (rule guarded_update_started)
next
  case (step_arrive ident fl now r)
  from arriveBooking_update [OF this] assms(2) show ?thesis by (rule guarded_update_started)
next
  case (step_cancel ident now r)
  from cancelBooking_update [OF this] assms(2) show ?thesis by (rule guarded_update_started)
next
  case (step_depart_write bk fl now r)
  from depart_write_update [OF this] assms(2) show ?thesis by (rule guarded_update_started)
next
  case (step_arrive_write bk fl now r)
  from arrive_write_update [OF this] assms(2) show ?thesis by (rule guarded_update_started)
next
  case (step_cancel_write bk now r)
  from cancel_write_update [OF this] assms(2) show ?thesis by (rule guarded_update_started)
qed

lemma lifecycle_steps_started:
  "(lifecycle_step flights)\<^sup>*\<^sup>* [] s \<Longrightarrow> list_all timeline_started s"
  by (induction rule: rtranclp_induct) (auto intro: lifecycle_step_started)

lemma history_sorted:
  "getBookingHistory s ident = Inr h \<Longrightarrow> sorted (map timestamp (timeline h))"
  by (auto simp: getBookingHistory_def split: option.splits)

text \<open>
  C7, as the claim states it, fails. A depart and an arrive both read the booking in status
  BOOKED; the arrive takes its \<open>new Date()\<close> one millisecond before the depart does; the
  store serves the depart's guarded write first and the arrive's after it, whose guard
  accepts DEPARTED. The timeline then ends with the depart's timestamp followed by the
  earlier one of the arrive.
\<close>

theorem timeline_out_of_order_counterexample:
  "createBooking [] [] ''DEL'' ''BOM'' ''10'' ''500'' [] ''65a1b2c3d4e5f60718293a4c''
       1735689600000 1735689600000 = (Inr booked_booking, [booked_booking])
   \<and> findBookingByIdentifier [booked_booking] ''BOOK-20250101-000001'' = Some booked_booking
   \<and> depart_write [booked_booking] booked_booking None 1735693200001
       = (Inr (set_and_push DEPARTED 1735693200001 None booked_booking),
          [set_and_push DEPARTED 1735693200001 None booked_booking])
   \<and> arrive_write [set_and_push DEPARTED 1735693200001 None booked_booking] booked_booking
         None 1735693200000
       = (Inr (set_and_push ARRIVED 1735693200000 None
                 (set_and_push DEPARTED 1735693200001 None booked_booking)),
          [set_and_push ARRIVED 1735693200000 None
                 (set_and_push DEPARTED 1735693200001 None booked_booking)])
   \<and> map timestamp (timeline (set_and_push ARRIVED 1735693200000 None
                 (set_and_push DEPARTED 1735693200001 None booked_booking)))
       = [1735689600000, 1735693200001, 1735693200000]
   \<and> \<not> sorted (map timestamp (timeline (set_and_push ARRIVED 1735693200000 None
                 (set_and_push DEPARTED 1735693200001 None booked_booking))))"
  by code_simp

text \<open>
  C7, amended. In every collection reached from the empty one by steps of create, depart,
  arrive and cancel, in any order and with any clock readings, each booking has a timeline
  that is not empty and whose first entry is the event BOOKED, the status every booking
  is created with, and the timeline that history returns is in non-decreasing order of
  timestamps. When the store serves the steps in the order of their clock readings, as it
  does for operations that run one after the other under a clock that never goes back,
  the timestamps of the stored timeline are in non-decreasing order too.
\<close>

theorem timeline_of_reachable_booking:
  "((lifecycle_step flights)\<^sup>*\<^sup>* [] s \<and> b \<in> set s \<longrightarrow>
      timeline b \<noteq> [] \<and> event (hd (timeline b)) = BOOKED)
   \<and> (getBookingHistory s ident = Inr h \<longrightarrow> sorted (map timestamp (timeline h)))
   \<and> (reachable flights t s \<and> b \<in> set s \<longrightarrow>
        timeline b \<noteq> [] \<and> sorted (map timestamp (timeline b))
        \<and> event (hd (timeline b)) = BOOKED)"
proof (intro conjI impI)
  assume a: "(lifecycle_step flights)\<^sup>*\<^sup>* [] s \<and> b \<in> set s"
  then have "list_all timeline_started s" using lifecycle_steps_started by blast
  with a have "timeline_started b" by (simp add: list_all_iff)
  then show "timeline b \<noteq> []" "event (hd (timeline b)) = BOOKED"
    by (simp_all add: timeline_started_def)
next
  assume "getBookingHistory s ident = Inr h"
  then show "sorted (map timestamp (timeline h))" by (rule history_sorted)
next
  assume a: "reachable flights t s \<and> b \<in> set s"
  then have "list_all (timeline_ok t) s" using reachable_timelines by blast
  with a have "timeline_ok t b" by (simp add: list_all_iff)
  then show "timeline b \<noteq> []" "sorted (map timestamp (timeline b))"
    "event (hd (timeline b)) = BOOKED"
    by (simp_all add: timeline_ok_def)
qed

theorem timeline_of_reachable_booking_witness:
  "reachable [] 1735700400000
     [set_and_push ARRIVED 1735700400000 None
        (set_and_push DEPARTED 1735693200000 None booked_booking)]
   \<and> timeline (set_and_push ARRIVED 1735700400000 None
        (set_and_push DEPARTED 1735693200000 None booked_booking))
       = [\<lparr>event = BOOKED, timestamp = 1735689600000, flightId = None\<rparr>,
          \<lparr>event = DEPARTED, timestamp = 1735693200000, flightId = None\<rparr>,
          \<lparr>event = ARRIVED, timestamp = 1735700400000, flightId = None\<rparr>]
   \<and> sorted [1735689600000, 1735693200000, 1735700400000 :: int]
   \<and> (lifecycle_step [])\<^sup>*\<^sup>* []
        [set_and_push ARRIVED 1735693200000 None
           (set_and_push DEPARTED 1735693200001 None booked_booking)]
   \<and> event (hd (timeline (set_and_push ARRIVED 1735693200000 None
           (set_and_push DEPARTED 1735693200001 None booked_booking)))) = BOOKED
   \<and> sorted (map timestamp (sort_key timestamp
        (timeline (set_and_push ARRIVED 1735693200000 None
           (set_and_push DEPARTED 1735693200001 None booked_booking)))))"
proof -
  let ?d = "set_and_push DEPARTED 1735693200000 None booked_booking"
  let ?a = "set_and_push ARRIVED 1735700400000 None ?d"
  let ?d' = "set_and_push DEPARTED 1735693200001 None booked_booking"
  let ?a' = "set_and_push ARRIVED 1735693200000 None ?d'"
  have 0: "reachable [] 1735689600000 []" by (rule reach_empty)
  have c: "createBooking [] [] ''del'' ''bom'' ''10'' ''500'' [] ''65a1b2c3d4e5f60718293a4c''
       1735689600000 1735689600000 = (Inr booked_booking, [booked_booking])"
    by code_simp
  have 1: "reachable [] 1735689600000 [booked_booking]"
    by (rule reach_create [OF 0 _ _ c]) simp_all
  have d: "departBooking [booked_booking] ''BOOK-20250101-000001'' None 1735693200000
       = (Inr ?d, [?d])"
    by code_simp
  have 2: "reachable [] 1735693200000 [?d]"
    by (rule reach_depart [OF 1 _ d]) simp
  have a: "arrive_write [?d] booked_booking None 1735700400000 = (Inr ?a, [?a])"
    by code_simp
  have 3: "reachable [] 1735700400000 [?a]"
    by (rule reach_arrive_write [OF 2 _ a]) simp
  have tl: "timeline ?a
       = [\<lparr>event = BOOKED, timestamp = 1735689600000, flightId = None\<rparr>,
          \<lparr>event = DEPARTED, timestamp = 1735693200000, flightId = None\<rparr>,
          \<lparr>event = ARRIVED, timestamp = 1735700400000, flightId = None\<rparr>]"
    by (simp add: set_and_push_def booked_booking_def)
  from timeline_of_reachable_booking [of "[]" "[?a]" ?a _ _ 1735700400000] 3
  have "sorted (map timestamp (timeline ?a))" by simp
  then have so: "sorted [1735689600000, 1735693200000, 1735700400000 :: int]"
    unfolding tl by simp
  have s1: "lifecycle_step [] [] [booked_booking]" by (rule step_create [OF c])
  have d': "depart_write [booked_booking] booked_booking None 1735693200001 = (Inr ?d', [?d'])"
    by code_simp
  have s2: "lifecycle_step [] [booked_booking] [?d']" by (rule step_depart_write [OF d'])
  have a': "arrive_write [?d'] booked_booking None 1735693200000 = (Inr ?a', [?a'])"
    by code_simp
  have s3: "lifecycle_step [] [?d'] [?a']" by (rule step_arrive_write [OF a'])
  from s1 s2 s3 have st: "(lifecycle_step [])\<^sup>*\<^sup>* [] [?a']" by simp
  from timeline_of_reachable_booking [of "[]" "[?a']" ?a'] st
  have hd: "event (hd (timeline ?a')) = BOOKED" by simp
  have h: "getBookingHistory [?a'] ''BOOK-20250101-000001''
             = Inr (?a'\<lparr>timeline := sort_key timestamp (timeline ?a')\<rparr>)"
    by code_simp
  from timeline_of_reachable_booking
         [of _ "[?a']" _ "''BOOK-20250101-000001''"
             "?a'\<lparr>timeline := sort_key timestamp (timeline ?a')\<rparr>"] h
  have hs: "sorted (map timestamp (sort_key timestamp (timeline ?a')))" by simp
  from 3 tl so st hd hs show ?thesis by blast
qed

section \<open>Two cancel calls on one booking\<close>

lemma cancel_steps_sequential:
  "(case cancel_step ident now s NotStarted of (s1, c1) \<Rightarrow> cancel_step ident now s1 c1)
     = (case cancelBooking s ident now of (r, s') \<Rightarrow>
          (s', Finished (findBookingByIdentifier s ident) r))"
  by (cases "findBookingByIdentifier s ident") (auto simp: cancelBooking_def split: prod.splits)

lemma distinct_ids_nth:
  assumes "distinct (map b_id s)" "j < length s" "k < length s" "b_id (s ! j) = b_id (s ! k)"
  shows "j = k"
  using assms by (metis distinct_conv_nth length_map nth_map)

lemma findOneAndUpdate_hit:
  assumes "distinct (map b_id s)" "k < length s" "status (s ! k) \<in> set v"
  shows "findOneAndUpdate s (b_id (s ! k)) v u = (Some (u (s ! k)), s[k := u (s ! k)])"
proof -
  from findOneAndUpdate_cases [of s "b_id (s ! k)" v u] show ?thesis
  proof
    assume "findOneAndUpdate s (b_id (s ! k)) v u = (None, s) \<and>
        (\<forall>b\<in>set s. \<not> (b_id b = b_id (s ! k) \<and> status b \<in> set v))"
    then have "\<not> (b_id (s ! k) = b_id (s ! k) \<and> status (s ! k) \<in> set v)"
      using assms(2) nth_mem by blast
    with assms(3) show ?thesis by simp
  next
    assume "\<exists>j<length s. b_id (s ! j) = b_id (s ! k) \<and> status (s ! j) \<in> set v \<and>
         (\<forall>i<j. \<not> (b_id (s ! i) = b_id (s ! k) \<and> status (s ! i) \<in> set v)) \<and>
         findOneAndUpdate s (b_id (s ! k)) v u = (Some (u (s ! j)), s[j := u (s ! j)])"
    then obtain j where j: "j < length s" "b_id (s ! j) = b_id (s ! k)"
      "findOneAndUpdate s (b_id (s ! k)) v u = (Some (u (s ! j)), s[j := u (s ! j)])"
      by blast
    from distinct_ids_nth [OF assms(1) j(1) assms(2) j(2)] j(3) show ?thesis by simp
  qed
qed

lemma findOneAndUpdate_miss:
  assumes "distinct (map b_id s)" "k < length s" "status (s ! k) \<notin> set v"
  shows "findOneAndUpdate s (b_id (s ! k)) v u = (None, s)"
proof -
  from findOneAndUpdate_cases [of s "b_id (s ! k)" v u] show ?thesis
  proof
    assume "findOneAndUpdate s (b_id (s ! k)) v u = (None, s) \<and>
        (\<forall>b\<in>set s. \<not> (b_id b = b_id (s ! k) \<and> status b \<in> set v))"
    then show ?thesis by simp
  next
    assume "\<exists>j<length s. b_id (s ! j) = b_id (s ! k) \<and> status (s ! j) \<in> set v \<and>
         (\<forall>i<j. \<not> (b_id (s ! i) = b_id (s ! k) \<and> status (s ! i) \<in> set v)) \<and>
         findOneAndUpdate s (b_id (s ! k)) v u = (Some (u (s ! j)), s[j := u (s ! j)])"
    then obtain j where j: "j < length s" "b_id (s ! j) = b_id (s ! k)" "status (s ! j) \<in> set v"
      by blast
    from distinct_ids_nth [OF assms(1) j(1) assms(2) j(2)] j(3) assms(3) show ?thesis by simp
  qed
qed


lemma find_in_update:
  assumes "distinct (map b_id s)" "k < length s" "find P s = Some (s ! k)" "P c"
  shows "find P (s[k := c]) = Some c"
proof -
  from assms(3) obtain i where i: "i < length s" "P (s ! i)" "s ! k = s ! i"
    "\<forall>j<i. \<not> P (s ! j)"
    unfolding find_Some_iff by blast
  from i(3) have "b_id (s ! i) = b_id (s ! k)" by simp
  from distinct_ids_nth [OF assms(1) i(1) assms(2) this] have ik: "i = k" .
  have "k < length (s[k := c]) \<and> P (s[k := c] ! k) \<and> c = s[k := c] ! k \<and>
        (\<forall>j<k. \<not> P (s[k := c] ! j))"
    using assms(2,4) i(4) ik by simp
  then show ?thesis unfolding find_Some_iff by blast
qed

lemma find_none_update:
  assumes "k < length s" "find P s = None" "P c = P (s ! k)"
  shows "find P (s[k := c]) = None"
proof -
  from assms(2) have n: "\<forall>x\<in>set s. \<not> P x" by (simp add: find_None_iff)
  with assms(1,3) have "\<not> P c" by simp
  moreover have "set (s[k := c]) \<subseteq> insert c (set s)" by (rule set_update_subset_insert)
  ultimately have "\<forall>x\<in>set (s[k := c]). \<not> P x" using n by blast
  then show ?thesis by (simp add: find_None_iff)
qed

text \<open>
  A lookup that found the booking at position \<open>k\<close> finds its replacement there, when the
  replacement keeps the \<open>_id\<close> and the \<open>ref_id\<close>.
\<close>

lemma lookup_in_update:
  assumes "distinct (map b_id s)" "k < length s"
    and "findBookingByIdentifier s ident = Some (s ! k)"
    and "b_id c = b_id (s ! k)" "ref_id c = ref_id (s ! k)"
  shows "findBookingByIdentifier (s[k := c]) ident = Some c"
proof (cases "tryById s ident")
  case (Some x)
  with assms(3) have x: "x = s ! k" by (simp add: findBookingByIdentifier_def)
  from Some have v: "isValid ident"
    and f: "find (\<lambda>b. b_id b = map toLowerChar ident) s = Some (s ! k)"
    unfolding x by (auto simp: tryById_def findById_def split: if_splits)
  from f have "b_id (s ! k) = map toLowerChar ident"
    unfolding find_Some_iff by auto
  with assms(4) have "b_id c = map toLowerChar ident" by simp
  from find_in_update [OF assms(1,2) f this] v show ?thesis
    by (simp add: findBookingByIdentifier_def tryById_def findById_def)
next
  case None
  with assms(3) have f: "find (\<lambda>b. ref_id b = trim (toUpperCase ident)) s = Some (s ! k)"
    by (simp add: findBookingByIdentifier_def findOneByRefId_def)
  then have "ref_id (s ! k) = trim (toUpperCase ident)"
    unfolding find_Some_iff by auto
  with assms(5) have "ref_id c = trim (toUpperCase ident)" by simp
  from find_in_update [OF assms(1,2) f this]
  have r: "findOneByRefId (s[k := c]) (trim (toUpperCase ident)) = Some c"
    by (simp add: findOneByRefId_def)
  have "tryById (s[k := c]) ident = None"
  proof (cases "isValid ident")
    case True
    with None have "find (\<lambda>b. b_id b = map toLowerChar ident) s = None"
      by (simp add: tryById_def findById_def)
    from find_none_update [OF assms(2) this, of c] assms(4) True show ?thesis
      by (simp add: tryById_def findById_def)
  next
    case False
    then show ?thesis by (simp add: tryById_def)
  qed
  with r show ?thesis by (simp add: findBookingByIdentifier_def)
qed


lemma progress_cancel_step:
  "progress (snd (cancel_step ident now s x)) = min 2 (Suc (progress x))"
proof (cases x)
  case NotStarted
  then show ?thesis by simp
next
  case (HasRead obs)
  then show ?thesis by (cases obs) (simp_all split: prod.splits)
next
  case (Finished obs r)
  then show ?thesis by simp
qed

lemma progress_le: "progress x \<le> 2"
  by (cases x) simp_all

lemma progress_run_cancels:
  assumes "run_cancels identA identB sched (s, a, b) = (s', a', b')"
  shows "progress a' = min 2 (progress a + steps_of True sched)
         \<and> progress b' = min 2 (progress b + steps_of False sched)"
  using assms
proof (induction sched arbitrary: s a b)
  case Nil
  then show ?case using progress_le [of a'] progress_le [of b'] by (simp add: steps_of_def)
next
  case (Cons e sched)
  obtain who now where e: "e = (who, now)" by (cases e)
  show ?case
  proof (cases who)
    case True
    obtain s1 a1 where st: "cancel_step identA now s a = (s1, a1)"
      by (cases "cancel_step identA now s a")
    with Cons.prems e True have "run_cancels identA identB sched (s1, a1, b) = (s', a', b')"
      by simp
    from Cons.IH [OF this] progress_cancel_step [of identA now s a] st e True
    show ?thesis by (auto simp: steps_of_def)
  next
    case False
    obtain s1 b1 where st: "cancel_step identB now s b = (s1, b1)"
      by (cases "cancel_step identB now s b")
    with Cons.prems e False have "run_cancels identA identB sched (s1, a, b1) = (s', a', b')"
      by simp
    from Cons.IH [OF this] progress_cancel_step [of identB now s b] st e False
    show ?thesis by (auto simp: steps_of_def)
  qed
qed


lemma ids_after_update:
  "k < length s \<Longrightarrow> map b_id (s[k := set_and_push st now fid (s ! k)]) = map b_id s"
  by (simp add: map_update set_and_push_def list_update_same_conv)

lemma step_before_write:
  assumes "distinct (map b_id s0)" "k < length s0" "status (s0 ! k) = BOOKED"
    and "findBookingByIdentifier s0 ident = Some (s0 ! k)"
    and "before_write (s0 ! k) x" and "cancel_step ident now s0 x = (s1, x1)"
  shows "s1 = s0 \<and> before_write (s0 ! k) x1 \<or>
         s1 = s0[k := set_and_push CANCELLED now None (s0 ! k)] \<and>
         x1 = Finished (Some (s0 ! k)) (Inr (set_and_push CANCELLED now None (s0 ! k)))"
proof (cases "x = NotStarted")
  case True
  with assms(4,6) show ?thesis by (auto simp: before_write_def)
next
  case False
  with assms(5) have x: "x = HasRead (Some (s0 ! k))" by (simp add: before_write_def)
  have "status (s0 ! k) \<in> set validStatusesForCancellation"
    by (simp add: assms(3) validStatusesForCancellation_def)
  from findOneAndUpdate_hit [OF assms(1,2) this]
  have "cancel_write s0 (s0 ! k) now
          = (Inr (set_and_push CANCELLED now None (s0 ! k)),
             s0[k := set_and_push CANCELLED now None (s0 ! k)])"
    by (simp add: cancel_write_def assms(3) validStatusesForCancellation_def)
  with assms(6) x show ?thesis by auto
qed

lemma step_after_write:
  assumes "distinct (map b_id s0)" "k < length s0" "status (s0 ! k) = BOOKED"
    and "findBookingByIdentifier s0 ident = Some (s0 ! k)"
    and "c = set_and_push CANCELLED t None (s0 ! k)"
    and "after_write (s0 ! k) c x" and "cancel_step ident now (s0[k := c]) x = (s2, x2)"
  shows "s2 = s0[k := c] \<and> after_write (s0 ! k) c x2"
proof -
  let ?s1 = "s0[k := c]"
  have idc: "b_id c = b_id (s0 ! k)" "ref_id c = ref_id (s0 ! k)" "status c = CANCELLED"
    by (simp_all add: assms(5) set_and_push_def)
  have d1: "distinct (map b_id ?s1)"
    using assms(1,2) by (simp add: assms(5) ids_after_update)
  have k1: "k < length ?s1" "?s1 ! k = c" using assms(2) by simp_all
  from assms(6) consider "x = NotStarted" | "x = HasRead (Some (s0 ! k))" | "x = HasRead (Some c)"
    | obs r where "x = Finished obs r" "loses_to (s0 ! k) c obs r"
    unfolding after_write_def by blast
  then show ?thesis
  proof cases
    case 1
    from lookup_in_update [OF assms(1,2,4) idc(1,2)] 1 assms(7) show ?thesis
      by (auto simp: after_write_def)
  next
    case 2
    have "status (?s1 ! k) \<notin> set validStatusesForCancellation"
      by (simp add: k1 idc validStatusesForCancellation_def)
    from findOneAndUpdate_miss [OF d1 k1(1) this]
    have "findOneAndUpdate ?s1 (b_id (s0 ! k)) validStatusesForCancellation
            (set_and_push CANCELLED now None) = (None, ?s1)"
      by (simp add: k1 idc)
    then have "cancel_write ?s1 (s0 ! k) now = (Inl CancellationFailed, ?s1)"
      by (simp add: cancel_write_def assms(3) validStatusesForCancellation_def)
    with 2 assms(7) show ?thesis
      by (auto simp: after_write_def loses_to_def)
  next
    case 3
    have "cancel_write ?s1 c now = (Inl (CannotCancel CANCELLED), ?s1)"
      by (simp add: cancel_write_def idc validStatusesForCancellation_def)
    with 3 assms(7) show ?thesis
      by (auto simp: after_write_def loses_to_def)
  next
    case 4
    with assms(7) show ?thesis by (auto simp: after_write_def)
  qed
qed


lemma race_inv_swap: "race_inv s0 k (s, a, b) = race_inv s0 k (s, b, a)"
  unfolding race_inv_def by auto

lemma race_inv_step:
  assumes "distinct (map b_id s0)" "k < length s0" "status (s0 ! k) = BOOKED"
    and "findBookingByIdentifier s0 ident = Some (s0 ! k)"
    and "race_inv s0 k (s, a, b)" and "cancel_step ident now s a = (s1, a1)"
  shows "race_inv s0 k (s1, a1, b)"
proof -
  let ?bk = "s0 ! k"
  from assms(5) consider
      (untouched) "s = s0" "before_write ?bk a" "before_write ?bk b"
    | (won) t where "s = s0[k := set_and_push CANCELLED t None ?bk]"
        "a = Finished (Some ?bk) (Inr (set_and_push CANCELLED t None ?bk))"
        "after_write ?bk (set_and_push CANCELLED t None ?bk) b"
    | (lost) t where "s = s0[k := set_and_push CANCELLED t None ?bk]"
        "b = Finished (Some ?bk) (Inr (set_and_push CANCELLED t None ?bk))"
        "after_write ?bk (set_and_push CANCELLED t None ?bk) a"
    unfolding race_inv_def by auto
  then show ?thesis
  proof cases
    case untouched
    from assms(6) have st: "cancel_step ident now s0 a = (s1, a1)" by (simp add: untouched(1))
    from untouched(3) have "after_write ?bk c b" for c
      by (auto simp: before_write_def after_write_def)
    with step_before_write [OF assms(1-4) untouched(2) st] untouched(3)
    show ?thesis unfolding race_inv_def by auto
  next
    case won
    with assms(6) have "s1 = s" "a1 = a" by simp_all
    with won show ?thesis unfolding race_inv_def by auto
  next
    case lost
    from assms(6)
    have st: "cancel_step ident now (s0[k := set_and_push CANCELLED t None ?bk]) a = (s1, a1)"
      by (simp add: lost(1))
    from step_after_write [OF assms(1-4) refl lost(3) st] lost(2)
    show ?thesis unfolding race_inv_def by auto
  qed
qed

lemma race_inv_run:
  assumes "distinct (map b_id s0)" "k < length s0" "status (s0 ! k) = BOOKED"
    and "findBookingByIdentifier s0 identA = Some (s0 ! k)"
    and "findBookingByIdentifier s0 identB = Some (s0 ! k)"
    and "race_inv s0 k (s, a, b)"
    and "run_cancels identA identB sched (s, a, b) = (s', a', b')"
  shows "race_inv s0 k (s', a', b')"
  using assms(6,7)
proof (induction sched arbitrary: s a b)
  case Nil
  then show ?case by simp
next
  case (Cons e sched)
  obtain who now where e: "e = (who, now)" by (cases e)
  show ?case
  proof (cases who)
    case True
    obtain s1 a1 where st: "cancel_step identA now s a = (s1, a1)"
      by (cases "cancel_step identA now s a")
    from race_inv_step [OF assms(1-4) Cons.prems(1) st]
    have "race_inv s0 k (s1, a1, b)" .
    moreover from Cons.prems(2) e True st
    have "run_cancels identA identB sched (s1, a1, b) = (s', a', b')" by simp
    ultimately show ?thesis by (rule Cons.IH)
  next
    case False
    obtain s1 b1 where st: "cancel_step identB now s b = (s1, b1)"
      by (cases "cancel_step identB now s b")
    from Cons.prems(1) have "race_inv s0 k (s, b, a)" by (simp add: race_inv_swap)
    from race_inv_step [OF assms(1-3,5) this st]
    have "race_inv s0 k (s1, a, b1)" by (simp add: race_inv_swap)
    moreover from Cons.prems(2) e False st
    have "run_cancels identA identB sched (s1, a, b1) = (s', a', b')" by simp
    ultimately show ?thesis by (rule Cons.IH)
  qed
qed


lemma lookup_in_store: "findBookingByIdentifier s ident = Some bk \<Longrightarrow> \<exists>k<length s. s ! k = bk"
  by (auto simp: findBookingByIdentifier_def tryById_def findById_def findOneByRefId_def
        find_Some_iff split: option.splits if_splits)

text \<open>
  C1, as the claim states it, fails: when the second call's read is served after the first
  call's write, the second call reads the status CANCELLED and fails with "Cannot cancel
  booking with status: CANCELLED", an InvalidTransition, not with a ConcurrencyConflict.
\<close>

theorem two_cancels_counterexample:
  "run_cancels ''BOOK-20250101-000001'' ''BOOK-20250101-000001''
      [(True, 1735693200000), (True, 1735693200001), (False, 1735693200002),
       (False, 1735693200003)]
      ([booked_booking], NotStarted, NotStarted)
     = ([set_and_push CANCELLED 1735693200001 None booked_booking],
        Finished (Some booked_booking)
          (Inr (set_and_push CANCELLED 1735693200001 None booked_booking)),
        Finished (Some (set_and_push CANCELLED 1735693200001 None booked_booking))
          (Inl (CannotCancel CANCELLED)))
   \<and> kind (CannotCancel CANCELLED) \<noteq> ConcurrencyConflict"
  by code_simp

text \<open>
  C1, amended. Two cancel calls on the same booking in status BOOKED, under every schedule
  of their reads and guarded writes that gives each call its two steps: both calls finish;
  exactly one succeeds, returning the booking in status CANCELLED, which is what the store
  then holds; the other fails, with "Booking cancellation failed" (a ConcurrencyConflict)
  when it had read the booking before that write, and with "Cannot cancel booking with
  status: CANCELLED" (an InvalidTransition) when it read it after.
\<close>

theorem two_cancels_one_winner:
  assumes "distinct (map b_id s)"
    and "findBookingByIdentifier s identA = Some bk"
    and "findBookingByIdentifier s identB = Some bk"
    and "status bk = BOOKED"
    and "2 \<le> steps_of True sched" and "2 \<le> steps_of False sched"
  shows "\<exists>s' c obsA rA obsB rB.
           run_cancels identA identB sched (s, NotStarted, NotStarted)
             = (s', Finished obsA rA, Finished obsB rB)
           \<and> status c = CANCELLED
           \<and> findBookingByIdentifier s' identA = Some c
           \<and> findBookingByIdentifier s' identB = Some c
           \<and> (rA = Inr c \<and> obsA = Some bk \<and> loses_to bk c obsB rB \<or>
              rB = Inr c \<and> obsB = Some bk \<and> loses_to bk c obsA rA)
           \<and> kind CancellationFailed = ConcurrencyConflict
           \<and> kind (CannotCancel CANCELLED) = InvalidTransition"
proof -
  from lookup_in_store [OF assms(2)] obtain k where k: "k < length s" "s ! k = bk" by blast
  note la = assms(2) [folded k(2)] and lb = assms(3) [folded k(2)]
    and st = assms(4) [folded k(2)]
  obtain s' a' b' where run:
    "run_cancels identA identB sched (s, NotStarted, NotStarted) = (s', a', b')"
    by (cases "run_cancels identA identB sched (s, NotStarted, NotStarted)")
  have "race_inv s k (s, NotStarted, NotStarted)"
    by (simp add: race_inv_def before_write_def)
  from race_inv_run [OF assms(1) k(1) st la lb this run]
  have inv: "race_inv s k (s', a', b')" .
  from progress_run_cancels [OF run] assms(5,6)
  have pa: "progress a' = 2" and pb: "progress b' = 2" by simp_all
  have fin: "\<exists>obs r. x = Finished obs r \<and> loses_to bk c obs r"
    if "after_write bk c x" "progress x = 2" for c x
    using that by (auto simp: after_write_def)
  have nb: "\<not> before_write bk x" if "progress x = 2" for x
    using that by (auto simp: before_write_def)
  from inv nb [OF pa] obtain t where t: "s' = s[k := set_and_push CANCELLED t None bk]"
    and w: "a' = Finished (Some bk) (Inr (set_and_push CANCELLED t None bk)) \<and>
              after_write bk (set_and_push CANCELLED t None bk) b' \<or>
            b' = Finished (Some bk) (Inr (set_and_push CANCELLED t None bk)) \<and>
              after_write bk (set_and_push CANCELLED t None bk) a'"
    unfolding race_inv_def k(2) by auto
  let ?c = "set_and_push CANCELLED t None bk"
  have c: "status ?c = CANCELLED" "b_id ?c = b_id (s ! k)" "ref_id ?c = ref_id (s ! k)"
    by (simp_all add: set_and_push_def k(2))
  have fa: "findBookingByIdentifier s' identA = Some ?c"
    unfolding t by (rule lookup_in_update [OF assms(1) k(1) la c(2,3)])
  have fb: "findBookingByIdentifier s' identB = Some ?c"
    unfolding t by (rule lookup_in_update [OF assms(1) k(1) lb c(2,3)])
  from w show ?thesis
  proof
    assume "a' = Finished (Some bk) (Inr ?c) \<and> after_write bk ?c b'"
    with fin [OF _ pb] obtain obs r where "b' = Finished obs r" "loses_to bk ?c obs r"
      and "a' = Finished (Some bk) (Inr ?c)" by blast
    with run c(1) fa fb show ?thesis by (intro exI [of _ s'] exI [of _ ?c]) simp
  next
    assume "b' = Finished (Some bk) (Inr ?c) \<and> after_write bk ?c a'"
    with fin [OF _ pa] obtain obs r where "a' = Finished obs r" "loses_to bk ?c obs r"
      and "b' = Finished (Some bk) (Inr ?c)" by blast
    with run c(1) fa fb show ?thesis by (intro exI [of _ s'] exI [of _ ?c]) simp
  qed
qed


theorem two_cancels_one_winner_witness:
  "distinct (map b_id [booked_booking])
   \<and> findBookingByIdentifier [booked_booking] ''65a1b2c3d4e5f60718293a4c'' = Some booked_booking
   \<and> findBookingByIdentifier [booked_booking] ''book-20250101-000001'' = Some booked_booking
   \<and> status booked_booking = BOOKED
   \<and> steps_of True race_schedule = 2 \<and> steps_of False race_schedule = 2
   \<and> run_cancels ''65a1b2c3d4e5f60718293a4c'' ''book-20250101-000001'' race_schedule
        ([booked_booking], NotStarted, NotStarted)
       = ([set_and_push CANCELLED 1735693200002 None booked_booking],
          Finished (Some booked_booking) (Inl CancellationFailed),
          Finished (Some booked_booking)
            (Inr (set_and_push CANCELLED 1735693200002 None booked_booking)))
   \<and> (\<exists>s' c obsA rA obsB rB.
         run_cancels ''65a1b2c3d4e5f60718293a4c'' ''book-20250101-000001'' race_schedule
           ([booked_booking], NotStarted, NotStarted)
           = (s', Finished obsA rA, Finished obsB rB)
         \<and> status c = CANCELLED
         \<and> (rA = Inr c \<and> obsA = Some booked_booking \<and> loses_to booked_booking c obsB rB \<or>
            rB = Inr c \<and> obsB = Some booked_booking \<and> loses_to booked_booking c obsA rA))"
proof -
  let ?s = "[booked_booking]"
  have d: "distinct (map b_id ?s)" by simp
  have fa: "findBookingByIdentifier ?s ''65a1b2c3d4e5f60718293a4c'' = Some booked_booking"
    by code_simp
  have fb: "findBookingByIdentifier ?s ''book-20250101-000001'' = Some booked_booking"
    by code_simp
  have st: "status booked_booking = BOOKED" by (simp add: booked_booking_def)
  have n: "steps_of True race_schedule = 2" "steps_of False race_schedule = 2"
    by code_simp+
  have r: "run_cancels ''65a1b2c3d4e5f60718293a4c'' ''book-20250101-000001'' race_schedule
        ([booked_booking], NotStarted, NotStarted)
       = ([set_and_push CANCELLED 1735693200002 None booked_booking],
          Finished (Some booked_booking) (Inl CancellationFailed),
          Finished (Some booked_booking)
            (Inr (set_and_push CANCELLED 1735693200002 None booked_booking)))"
    by code_simp
  from n have n2: "2 \<le> steps_of True race_schedule" "2 \<le> steps_of False race_schedule"
    by simp_all
  from two_cancels_one_winner [OF d fa fb st n2]
  have "\<exists>s' c obsA rA obsB rB.
         run_cancels ''65a1b2c3d4e5f60718293a4c'' ''book-20250101-000001'' race_schedule
           ([booked_booking], NotStarted, NotStarted)
           = (s', Finished obsA rA, Finished obsB rB)
         \<and> status c = CANCELLED
         \<and> (rA = Inr c \<and> obsA = Some booked_booking \<and> loses_to booked_booking c obsB rB \<or>
            rB = Inr c \<and> obsB = Some booked_booking \<and> loses_to booked_booking c obsA rA)"
    by blast
  with d fa fb st n r show ?thesis by blast
qed

end
